theory Spec2Isabelle
  imports Complex_Main "HOL-Library.AList"
begin

section \<open>Data model of the lexicon decoder\<close>

text \<open>
  The decoder of \<^verbatim>\<open>LexiconDecoder.cpp\<close> is embedded as pure functions over
  records.  Scores (C++ \<^verbatim>\<open>double\<close> and \<^verbatim>\<open>float\<close>) are real numbers; the
  sentinel \<^verbatim>\<open>kNegativeInfinity\<close> only ever occurs as the initial running best of
  the candidate buffer and as the value of \<^verbatim>\<open>unkScore\<close> that switches
  unknown words off, and both places are options with \<open>None\<close> for it.  C++
  \<^verbatim>\<open>int\<close> values are integers (the code never relies on wrap-around).  A pointer
  to a trie node is the address of the node, a natural number; a pointer to a
  hypothesis is the pair of its frame index in \<^verbatim>\<open>hyp_\<close> and its position in
  that frame's vector.

  Modelled from the spec: the options, the trie node, the hypothesis record and
  the language-model interface are declared in headers outside this file; the
  records hold the fields the code reads, under the code's names
  (\<open>lexNode\<close> is the field \<^verbatim>\<open>lex\<close>, \<open>getRoot\<close> the trie's
  \<^verbatim>\<open>getRoot()\<close>).  \<^verbatim>\<open>children\<close> is a map from token to node, kept as
  an association list.
\<close>

datatype CriterionType = ASG | CTC

record DecoderOptions =
  beamSize :: int
  beamSizeToken :: int
  beamThreshold :: real
  lmWeight :: real
  wordScore :: real
  unkScore :: "real option"
  silScore :: real
  logAdd :: bool
  criterionType :: CriterionType

record TrieNode =
  children :: "(int \<times> nat) list"
  labels :: "int list"
  maxScore :: real

record Trie =
  getRoot :: nat
  node :: "nat \<Rightarrow> TrieNode"

record 'l LexiconDecoderState =
  lmState :: 'l
  lexNode :: nat
  parent :: "(int \<times> nat) option"
  score :: real
  token :: int
  word :: int
  prevBlank :: bool

text \<open>
  The language model is an external collaborator: the decoder sees an opaque
  state type \<open>'l\<close> with the four operations it calls.
\<close>

record 'l LM =
  lm_start :: "bool \<Rightarrow> 'l"
  lm_score :: "'l \<Rightarrow> int \<Rightarrow> 'l \<times> real"
  lm_finish :: "'l \<Rightarrow> 'l \<times> real"
  lm_compare :: "'l \<Rightarrow> 'l \<Rightarrow> int"

text \<open>
  The staging buffer of one frame: \<^verbatim>\<open>candidatesBestScore_\<close> and
  \<^verbatim>\<open>candidates_\<close>.  It is reset before each frame is expanded.
\<close>

record 'l Candidates =
  candidatesBestScore :: "real option"
  candidates :: "'l LexiconDecoderState list"

record 'l LexiconDecoder =
  opt :: DecoderOptions
  lexicon :: Trie
  lm :: "'l LM"
  sil :: int
  blank :: int
  unk :: int
  transitions :: "int \<Rightarrow> real"
  isLmToken :: bool
  hyp :: "(int \<times> 'l LexiconDecoderState list) list"
  nDecodedFrames :: int
  nPrunedFrames :: int

datatype error = NullCandidate | MissingFrame

section \<open>Sorting with a comparator\<close>

text \<open>
  \<^verbatim>\<open>std::sort\<close> with a comparator \<open>before\<close>.  The standard leaves open the
  order of elements the comparator does not order; the model inserts from the
  right, so that they keep their input order.
\<close>

fun insort_by :: "('a \<Rightarrow> 'a \<Rightarrow> bool) \<Rightarrow> 'a \<Rightarrow> 'a list \<Rightarrow> 'a list" where
  "insort_by before x [] = [x]"
| "insort_by before x (y # ys) =
     (if before y x then y # insort_by before x ys else x # y # ys)"

definition sort_by :: "('a \<Rightarrow> 'a \<Rightarrow> bool) \<Rightarrow> 'a list \<Rightarrow> 'a list" where
  "sort_by before xs = foldr (insort_by before) xs []"

section \<open>Scoring primitives and the candidate buffer\<close>

definition log_add :: "real \<Rightarrow> real \<Rightarrow> real" where
  \<comment> \<open>Modelled from the spec: \<^verbatim>\<open>log_add\<close> is declared outside this file; the
      spec gives \<open>max(a,b) + log1p(exp(-|a-b|))\<close>.\<close>
  "log_add a b = max a b + ln (1 + exp (- \<bar>a - b\<bar>))"

definition isValidCandidate :: "real option \<Rightarrow> real \<Rightarrow> real \<Rightarrow> bool \<times> real option" where
  \<comment> \<open>Modelled from the spec: \<^verbatim>\<open>isValidCandidate\<close> is declared outside this
      file.  The test is \<open>score \<ge> best - thr\<close> (and \<open>score > -\<infinity>\<close>, which every
      real satisfies); the running best, passed by reference, becomes the
      maximum score ever offered.\<close>
  "isValidCandidate bestScore s thr =
     ((case bestScore of None \<Rightarrow> True | Some b \<Rightarrow> b - thr \<le> s),
      (case bestScore of None \<Rightarrow> Some s | Some b \<Rightarrow> Some (max b s)))"

definition candidatesReset :: "'l Candidates" where
  "candidatesReset = \<lparr>candidatesBestScore = None, candidates = []\<rparr>"

definition candidatesAdd ::
  "DecoderOptions \<Rightarrow> 'l LexiconDecoderState \<Rightarrow> 'l Candidates \<Rightarrow> 'l Candidates" where
  "candidatesAdd opts c buf =
     (case isValidCandidate (candidatesBestScore buf) (score c) (beamThreshold opts) of
        (valid, best) \<Rightarrow>
          \<lparr>candidatesBestScore = best,
           candidates = (if valid then candidates buf @ [c] else candidates buf)\<rparr>)"

definition pruneCandidates ::
  "'l LexiconDecoderState list \<Rightarrow> real option \<Rightarrow> 'l LexiconDecoderState list" where
  \<comment> \<open>Modelled from the spec: \<^verbatim>\<open>pruneCandidates\<close> is declared outside this file;
      it builds the pointer array over the staging vector, keeping the entries
      whose score reaches the threshold.  A pointer is modelled by the
      candidate it points to: every pointer addresses a different candidate.\<close>
  "pruneCandidates cands threshold =
     filter (\<lambda>c. case threshold of None \<Rightarrow> True | Some th \<Rightarrow> th \<le> score c) cands"

definition mergeStates ::
  "'l LexiconDecoderState \<Rightarrow> 'l LexiconDecoderState \<Rightarrow> bool \<Rightarrow> 'l LexiconDecoderState" where
  \<comment> \<open>Modelled from the spec: \<^verbatim>\<open>mergeStates\<close> is declared outside this file;
      scores are combined by log-add, or by max when the flag is off, and the
      parent of the higher-scoring state is retained.\<close>
  "mergeStates oldNode newNode la =
     oldNode\<lparr>score := (if la then log_add (score oldNode) (score newNode)
                        else max (score oldNode) (score newNode)),
              parent := (if score oldNode < score newNode then parent newNode
                         else parent oldNode)\<rparr>"

definition compareNodesShortList ::
  "'l LM \<Rightarrow> 'l LexiconDecoderState \<Rightarrow> 'l LexiconDecoderState \<Rightarrow> bool" where
  "compareNodesShortList m node1 node2 =
     (let lmCmp = lm_compare m (lmState node1) (lmState node2) in
      if lmCmp \<noteq> 0 then lmCmp > 0
      else if lexNode node1 \<noteq> lexNode node2 then lexNode node1 > lexNode node2
      else if token node1 \<noteq> token node2 then token node1 > token node2
      else if prevBlank node1 \<noteq> prevBlank node2 then prevBlank node1 > prevBlank node2
      else score node1 > score node2)"

definition differentKey ::
  "'l LM \<Rightarrow> 'l LexiconDecoderState \<Rightarrow> 'l LexiconDecoderState \<Rightarrow> bool" where
  \<comment> \<open>The test of the sweep in \<^verbatim>\<open>mergeCandidates\<close>: candidate \<open>c\<close> against the
      last kept one.\<close>
  "differentKey m c kept =
     (lm_compare m (lmState c) (lmState kept) \<noteq> 0 \<or>
      lexNode c \<noteq> lexNode kept \<or>
      token c \<noteq> token kept \<or>
      prevBlank c \<noteq> prevBlank kept)"

text \<open>
  The sweep of \<^verbatim>\<open>mergeCandidates\<close>.  \<open>kept\<close> is the entry at position
  \<^verbatim>\<open>nHypAfterMerging - 1\<close>; the entries before it are final and are emitted
  in order.
\<close>

fun sweep ::
  "'l LM \<Rightarrow> bool \<Rightarrow> 'l LexiconDecoderState \<Rightarrow> 'l LexiconDecoderState list \<Rightarrow>
   'l LexiconDecoderState list" where
  "sweep m la kept [] = [kept]"
| "sweep m la kept (c # cs) =
     (if differentKey m c kept then kept # sweep m la c cs
      else sweep m la (mergeStates kept c la) cs)"

definition mergeCandidates ::
  "'l LM \<Rightarrow> bool \<Rightarrow> 'l LexiconDecoderState list \<Rightarrow> error + 'l LexiconDecoderState list" where
  \<comment> \<open>On an empty pointer array the loop does not run and \<^verbatim>\<open>resize(1)\<close> leaves
      one null pointer in it, which the selection that follows dereferences.\<close>
  "mergeCandidates m la ptrs =
     (case sort_by (compareNodesShortList m) ptrs of
        [] \<Rightarrow> Inl NullCandidate
      | c # cs \<Rightarrow> Inr (sweep m la c cs))"

definition storeTopCandidates ::
  "'l LexiconDecoderState list \<Rightarrow> int \<Rightarrow> bool \<Rightarrow> 'l LexiconDecoderState list" where
  \<comment> \<open>Modelled from the spec: \<^verbatim>\<open>storeTopCandidates\<close> is declared outside this
      file; it selects at most \<open>beam_size\<close> entries by score and copies them
      into the output frame, in descending score order when \<open>returnSorted\<close>
      is set and in any order otherwise (the model emits the same order).\<close>
  "storeTopCandidates ptrs bSize returnSorted =
     take (nat bSize) (sort_by (\<lambda>a b. score a > score b) ptrs)"

definition candidatesStore ::
  "DecoderOptions \<Rightarrow> 'l LM \<Rightarrow> 'l Candidates \<Rightarrow> bool \<Rightarrow>
   error + 'l LexiconDecoderState list" where
  "candidatesStore opts m buf returnSorted =
     (if candidates buf = [] then Inr []
      else
        (case mergeCandidates m (logAdd opts)
                (pruneCandidates (candidates buf)
                   (map_option (\<lambda>b. b - beamThreshold opts) (candidatesBestScore buf))) of
           Inl e \<Rightarrow> Inl e
         | Inr ptrs \<Rightarrow> Inr (storeTopCandidates ptrs (beamSize opts) returnSorted)))"

section \<open>The hypothesis buffer\<close>

text \<open>
  \<^verbatim>\<open>hyp_\<close> is an \<^verbatim>\<open>unordered_map\<close> from frame index to the frame's vector:
  an association list with one entry per key.  \<open>hyp_emplace\<close> is
  \<^verbatim>\<open>emplace\<close> (no effect on a key that is present); \<^verbatim>\<open>hyp_[k]\<close> is
  \<open>hyp_emplace h k []\<close> followed by \<open>hyp_at\<close>, and an assignment through
  \<^verbatim>\<open>hyp_[k]\<close> is \<open>AList.update\<close>.
\<close>

definition hyp_emplace ::
  "(int \<times> 'a list) list \<Rightarrow> int \<Rightarrow> 'a list \<Rightarrow> (int \<times> 'a list) list" where
  "hyp_emplace h k v = (if map_of h k = None then h @ [(k, v)] else h)"

definition hyp_at :: "(int \<times> 'a list) list \<Rightarrow> int \<Rightarrow> 'a list" where
  "hyp_at h k = (case map_of h k of None \<Rightarrow> [] | Some fr \<Rightarrow> fr)"

definition deref ::
  "(int \<times> 'a list) list \<Rightarrow> int \<times> nat \<Rightarrow> 'a option" where
  \<comment> \<open>The hypothesis a parent pointer addresses; a pointer into no stored
      frame reads as null.\<close>
  "deref h p =
     (case map_of h (fst p) of
        None \<Rightarrow> None
      | Some fr \<Rightarrow> (if snd p < length fr then Some (fr ! snd p) else None))"

section \<open>Beam lifecycle: begin and step\<close>

definition decodeBegin :: "'l LexiconDecoder \<Rightarrow> 'l LexiconDecoder" where
  "decodeBegin d =
     d\<lparr>hyp := [(0, [\<lparr>lmState = lm_start (lm d) False, lexNode = getRoot (lexicon d),
                      parent = None, score = 0, token = sil d, word = -1,
                      prevBlank = False\<rparr>])],
       nDecodedFrames := 0,
       nPrunedFrames := 0\<rparr>"

definition tokenCandidates :: "DecoderOptions \<Rightarrow> (int \<Rightarrow> real) \<Rightarrow> int \<Rightarrow> int \<Rightarrow> int list" where
  \<comment> \<open>The entries \<^verbatim>\<open>idx[0 .. min(beamSizeToken, N) - 1]\<close> that the loop over
      \<open>r\<close> reads: \<^verbatim>\<open>iota\<close>, partially sorted by descending emission when
      \<open>N > beamSizeToken\<close>.\<close>
  "tokenCandidates opts emissions t N =
     take (nat (min (beamSizeToken opts) N))
       (if N > beamSizeToken opts
        then sort_by (\<lambda>l r. emissions (t * N + l) > emissions (t * N + r)) [0..N - 1]
        else [0..N - 1])"

definition tokenScore ::
  "'l LexiconDecoder \<Rightarrow> (int \<Rightarrow> real) \<Rightarrow> int \<Rightarrow> int \<Rightarrow> 'l LexiconDecoderState \<Rightarrow> int \<Rightarrow> real" where
  \<comment> \<open>The local \<^verbatim>\<open>score\<close> of rules (1) and (2): emission, ASG transition after
      the first frame, silence bonus.\<close>
  "tokenScore d emissions t N prevHyp n =
     score prevHyp + emissions (t * N + n)
     + (if nDecodedFrames d + t > 0 \<and> criterionType (opt d) = ASG
        then transitions d (n * N + token prevHyp) else 0)
     + (if n = sil d then silScore (opt d) else 0)"

text \<open>
  Each rule is the list of the \<^verbatim>\<open>candidatesAdd\<close> calls it makes, in program
  order; \<open>ptr\<close> is \<^verbatim>\<open>&prevHyp\<close>.
\<close>

definition tryChildren ::
  "'l LexiconDecoder \<Rightarrow> (int \<Rightarrow> real) \<Rightarrow> int \<Rightarrow> int \<Rightarrow> int \<times> nat \<Rightarrow>
   'l LexiconDecoderState \<Rightarrow> int \<Rightarrow> 'l LexiconDecoderState list" where
  "tryChildren d emissions t N ptr prevHyp n =
     (case map_of (children (node (lexicon d) (lexNode prevHyp))) n of
        None \<Rightarrow> []
      | Some c \<Rightarrow>
          (let lexMaxScore =
                 (if lexNode prevHyp = getRoot (lexicon d) then 0
                  else maxScore (node (lexicon d) (lexNode prevHyp)));
               sc = tokenScore d emissions t N prevHyp n;
               lmReturn = lm_score (lm d) (lmState prevHyp) n
           in
             (if (criterionType (opt d) \<noteq> CTC \<or> prevBlank prevHyp \<or> n \<noteq> token prevHyp)
                 \<and> children (node (lexicon d) c) \<noteq> []
              then [\<lparr>lmState = (if isLmToken d then fst lmReturn else lmState prevHyp),
                     lexNode = c, parent = Some ptr,
                     score = sc + lmWeight (opt d) *
                       (if isLmToken d then snd lmReturn
                        else maxScore (node (lexicon d) c) - lexMaxScore),
                     token = n, word = -1, prevBlank = False\<rparr>]
              else [])
             @ map (\<lambda>label.
                 \<lparr>lmState = (if isLmToken d then fst lmReturn
                              else fst (lm_score (lm d) (lmState prevHyp) label)),
                  lexNode = getRoot (lexicon d), parent = Some ptr,
                  score = sc + lmWeight (opt d) *
                    (if isLmToken d then snd lmReturn
                     else snd (lm_score (lm d) (lmState prevHyp) label) - lexMaxScore)
                    + wordScore (opt d),
                  token = n, word = label, prevBlank = False\<rparr>)
                 (labels (node (lexicon d) c))
             @ (case unkScore (opt d) of
                  None \<Rightarrow> []
                | Some u \<Rightarrow>
                    (if labels (node (lexicon d) c) = []
                     then [\<lparr>lmState = (if isLmToken d then fst lmReturn
                                        else fst (lm_score (lm d) (lmState prevHyp) (unk d))),
                            lexNode = getRoot (lexicon d), parent = Some ptr,
                            score = sc + lmWeight (opt d) *
                              (if isLmToken d then snd lmReturn
                               else snd (lm_score (lm d) (lmState prevHyp) (unk d)) - lexMaxScore)
                              + u,
                            token = n, word = unk d, prevBlank = False\<rparr>]
                     else []))))"

definition trySame ::
  "'l LexiconDecoder \<Rightarrow> (int \<Rightarrow> real) \<Rightarrow> int \<Rightarrow> int \<Rightarrow> int \<times> nat \<Rightarrow>
   'l LexiconDecoderState \<Rightarrow> 'l LexiconDecoderState list" where
  "trySame d emissions t N ptr prevHyp =
     (if criterionType (opt d) \<noteq> CTC \<or> \<not> prevBlank prevHyp
      then [\<lparr>lmState = lmState prevHyp, lexNode = lexNode prevHyp, parent = Some ptr,
             score = tokenScore d emissions t N prevHyp (token prevHyp),
             token = token prevHyp, word = -1, prevBlank = False\<rparr>]
      else [])"

definition tryBlank ::
  "'l LexiconDecoder \<Rightarrow> (int \<Rightarrow> real) \<Rightarrow> int \<Rightarrow> int \<Rightarrow> int \<times> nat \<Rightarrow>
   'l LexiconDecoderState \<Rightarrow> 'l LexiconDecoderState list" where
  "tryBlank d emissions t N ptr prevHyp =
     (if criterionType (opt d) = CTC
      then [\<lparr>lmState = lmState prevHyp, lexNode = lexNode prevHyp, parent = Some ptr,
             score = score prevHyp + emissions (t * N + blank d),
             token = blank d, word = -1, prevBlank = True\<rparr>]
      else [])"

definition expand ::
  "'l LexiconDecoder \<Rightarrow> (int \<Rightarrow> real) \<Rightarrow> int \<Rightarrow> int \<Rightarrow> int \<times> nat \<Rightarrow>
   'l LexiconDecoderState \<Rightarrow> 'l LexiconDecoderState list" where
  \<comment> \<open>The body of the loop over the previous frame, for one \<^verbatim>\<open>prevHyp\<close>.\<close>
  "expand d emissions t N ptr prevHyp =
     concat (map (tryChildren d emissions t N ptr prevHyp)
               (tokenCandidates (opt d) emissions t N))
     @ trySame d emissions t N ptr prevHyp
     @ tryBlank d emissions t N ptr prevHyp"

definition candidatesAddAll ::
  "DecoderOptions \<Rightarrow> 'l LexiconDecoderState list \<Rightarrow> 'l Candidates \<Rightarrow> 'l Candidates" where
  "candidatesAddAll opts offers buf = fold (candidatesAdd opts) offers buf"

definition decodeFrame ::
  "'l LexiconDecoder \<Rightarrow> (int \<Rightarrow> real) \<Rightarrow> int \<Rightarrow> int \<Rightarrow> int \<Rightarrow>
   (int \<times> 'l LexiconDecoderState list) list \<Rightarrow>
   error + (int \<times> 'l LexiconDecoderState list) list" where
  \<comment> \<open>One iteration of the loop over \<open>t\<close>.  \<^verbatim>\<open>updateLMCache\<close> only warms the
      cache inside the language model and leaves the decoder as it is.\<close>
  "decodeFrame d emissions N startFrame t h =
     (let h1 = hyp_emplace h (startFrame + t) [];
          offers = concat (map (\<lambda>(j, prevHyp). expand d emissions t N (startFrame + t, j) prevHyp)
                             (enumerate 0 (hyp_at h1 (startFrame + t))))
      in case candidatesStore (opt d) (lm d)
                (candidatesAddAll (opt d) offers candidatesReset) False of
           Inl e \<Rightarrow> Inl e
         | Inr fr \<Rightarrow> Inr (AList.update (startFrame + t + 1) fr h1))"

fun decodeFrames ::
  "'l LexiconDecoder \<Rightarrow> (int \<Rightarrow> real) \<Rightarrow> int \<Rightarrow> int \<Rightarrow> int list \<Rightarrow>
   (int \<times> 'l LexiconDecoderState list) list \<Rightarrow>
   error + (int \<times> 'l LexiconDecoderState list) list" where
  "decodeFrames d emissions N startFrame [] h = Inr h"
| "decodeFrames d emissions N startFrame (t # ts) h =
     (case decodeFrame d emissions N startFrame t h of
        Inl e \<Rightarrow> Inl e
      | Inr h' \<Rightarrow> decodeFrames d emissions N startFrame ts h')"

definition decodeStep ::
  "'l LexiconDecoder \<Rightarrow> (int \<Rightarrow> real) \<Rightarrow> int \<Rightarrow> int \<Rightarrow> error + 'l LexiconDecoder" where
  \<comment> \<open>\<^verbatim>\<open>emissions\<close> is a raw pointer, read at the offsets the code computes.
      The buffer is extended by the keys from \<^verbatim>\<open>hyp_.size()\<close> up to
      \<open>startFrame + T + 1\<close>, none when that range is empty.\<close>
  "decodeStep d emissions T N =
     (let startFrame = nDecodedFrames d - nPrunedFrames d;
          h0 = fold (\<lambda>i h. hyp_emplace h i []) [int (length (hyp d))..startFrame + T + 1] (hyp d)
      in case decodeFrames d emissions N startFrame [0..T - 1] h0 of
           Inl e \<Rightarrow> Inl e
         | Inr h \<Rightarrow> Inr (d\<lparr>hyp := h, nDecodedFrames := nDecodedFrames d + T\<rparr>))"

section \<open>Beam lifecycle: end, best hypothesis, prune\<close>

definition decodeEndOffers ::
  "'l LexiconDecoder \<Rightarrow> 'l LexiconDecoderState list \<Rightarrow> 'l LexiconDecoderState list" where
  \<comment> \<open>The \<^verbatim>\<open>candidatesAdd\<close> calls of \<^verbatim>\<open>decodeEnd\<close> over the last frame.\<close>
  "decodeEndOffers d prev =
     (let hasNiceEnding = (\<exists>prevHyp \<in> set prev. lexNode prevHyp = getRoot (lexicon d))
      in concat (map (\<lambda>(j, prevHyp).
                   if \<not> hasNiceEnding \<or> lexNode prevHyp = getRoot (lexicon d)
                   then [\<lparr>lmState = fst (lm_finish (lm d) (lmState prevHyp)),
                          lexNode = lexNode prevHyp,
                          parent = Some (nDecodedFrames d - nPrunedFrames d, j),
                          score = score prevHyp
                                  + lmWeight (opt d) * snd (lm_finish (lm d) (lmState prevHyp)),
                          token = sil d, word = -1, prevBlank = False\<rparr>]
                   else [])
                (enumerate 0 prev)))"

definition decodeEnd :: "'l LexiconDecoder \<Rightarrow> error + 'l LexiconDecoder" where
  "decodeEnd d =
     (let f = nDecodedFrames d - nPrunedFrames d;
          h1 = hyp_emplace (hyp d) f []
      in case candidatesStore (opt d) (lm d)
                (candidatesAddAll (opt d) (decodeEndOffers d (hyp_at h1 f)) candidatesReset)
                True of
           Inl e \<Rightarrow> Inl e
         | Inr fr \<Rightarrow>
             Inr (d\<lparr>hyp := AList.update (f + 1) fr h1,
                    nDecodedFrames := nDecodedFrames d + 1\<rparr>))"

record DecodeResult =
  resultScore :: real
  words :: "int list"
  tokens :: "int list"

definition emptyResult :: DecodeResult where
  "emptyResult = \<lparr>resultScore = 0, words = [], tokens = []\<rparr>"

fun ancestor ::
  "(int \<times> 'l LexiconDecoderState list) list \<Rightarrow> nat \<Rightarrow> 'l LexiconDecoderState \<Rightarrow>
   'l LexiconDecoderState option" where
  "ancestor h 0 s = Some s"
| "ancestor h (Suc n) s =
     (case parent s of
        None \<Rightarrow> None
      | Some p \<Rightarrow> (case deref h p of None \<Rightarrow> None | Some s' \<Rightarrow> ancestor h n s'))"

definition findBestAncestor ::
  "(int \<times> 'l LexiconDecoderState list) list \<Rightarrow> 'l LexiconDecoderState list \<Rightarrow> int \<Rightarrow>
   'l LexiconDecoderState option" where
  \<comment> \<open>Modelled from the spec: \<^verbatim>\<open>findBestAncestor\<close> is declared outside this
      file; it takes the highest-scoring state of the frame whose
      \<open>lookBack\<close>-th ancestor exists and returns that ancestor, null when
      there is none.\<close>
  "findBestAncestor h finalHyps lookBack =
     (case filter (\<lambda>s. ancestor h (nat lookBack) s \<noteq> None) finalHyps of
        [] \<Rightarrow> None
      | c # cs \<Rightarrow>
          ancestor h (nat lookBack)
            (fold (\<lambda>s best. if score best < score s then s else best) cs c))"

fun backtrack ::
  "(int \<times> 'l LexiconDecoderState list) list \<Rightarrow> nat \<Rightarrow> 'l LexiconDecoderState option \<Rightarrow>
   'l LexiconDecoderState list" where
  "backtrack h 0 nd = []"
| "backtrack h (Suc n) None = []"
| "backtrack h (Suc n) (Some s) =
     s # backtrack h n (case parent s of None \<Rightarrow> None | Some p \<Rightarrow> deref h p)"

definition getHypothesis ::
  "(int \<times> 'l LexiconDecoderState list) list \<Rightarrow> 'l LexiconDecoderState option \<Rightarrow> int \<Rightarrow>
   DecodeResult" where
  \<comment> \<open>Modelled from the spec: \<^verbatim>\<open>getHypothesis\<close> is declared outside this file;
      it walks the parent pointers from the node back to frame 0, collects
      token and word, and reverses; from a null node the result is empty.\<close>
  "getHypothesis h nd finalFrame =
     (case nd of
        None \<Rightarrow> emptyResult
      | Some s \<Rightarrow>
          (let chain = rev (backtrack h (nat finalFrame + 1) nd)
           in \<lparr>resultScore = score s, words = map word chain, tokens = map token chain\<rparr>))"

definition getBestHypothesis :: "'l LexiconDecoder \<Rightarrow> int \<Rightarrow> error + DecodeResult" where
  \<comment> \<open>\<^verbatim>\<open>hyp_.find(k)->second\<close> on a key that is absent dereferences the end
      iterator: \<open>MissingFrame\<close>.\<close>
  "getBestHypothesis d lookBack =
     (if nDecodedFrames d - nPrunedFrames d - lookBack < 1 then Inr emptyResult
      else
        (case map_of (hyp d) (nDecodedFrames d - nPrunedFrames d) of
           None \<Rightarrow> Inl MissingFrame
         | Some fr \<Rightarrow>
             Inr (getHypothesis (hyp d) (findBestAncestor (hyp d) fr lookBack)
                    (nDecodedFrames d - nPrunedFrames d - lookBack))))"

definition pruneAndNormalize ::
  "(int \<times> 'l LexiconDecoderState list) list \<Rightarrow> int \<Rightarrow> int \<Rightarrow>
   (int \<times> 'l LexiconDecoderState list) list" where
  \<comment> \<open>Modelled from the spec: \<^verbatim>\<open>pruneAndNormalize\<close> is declared outside this
      file; the frames before \<open>startFrame\<close> are dropped (the later ones move to
      the front, and parent pointers move with them), and the score of the
      best ancestor at \<open>startFrame\<close> is subtracted from every remaining
      score.\<close>
  "pruneAndNormalize h startFrame lookBack =
     (let base = (case findBestAncestor h (hyp_at h (startFrame + lookBack)) lookBack of
                    None \<Rightarrow> 0 | Some a \<Rightarrow> score a);
          rebase = (\<lambda>s. s\<lparr>score := score s - base,
                          parent := (case parent s of
                                       None \<Rightarrow> None
                                     | Some p \<Rightarrow> (if fst p < startFrame then None
                                                  else Some (fst p - startFrame, snd p)))\<rparr>)
      in map (\<lambda>(k, fr). (k, (if k \<le> lookBack then map rebase (hyp_at h (k + startFrame))
                              else [])))
           h)"

definition prune :: "'l LexiconDecoder \<Rightarrow> int \<Rightarrow> error + 'l LexiconDecoder" where
  "prune d lookBack =
     (if nDecodedFrames d - nPrunedFrames d - lookBack < 1 then Inr d
      else
        (case map_of (hyp d) (nDecodedFrames d - nPrunedFrames d) of
           None \<Rightarrow> Inl MissingFrame
         | Some fr \<Rightarrow>
             (case findBestAncestor (hyp d) fr lookBack of
                None \<Rightarrow> Inr d
              | Some bestNode \<Rightarrow>
                  (let startFrame = nDecodedFrames d - nPrunedFrames d - lookBack
                   in if startFrame < 1 then Inr d
                      else Inr (d\<lparr>hyp := pruneAndNormalize (hyp d) startFrame lookBack,
                                 nPrunedFrames := nDecodedFrames d - lookBack\<rparr>)))))"

section \<open>Properties of frames and of the language model\<close>

text \<open>
  The contract of the language model's \<^verbatim>\<open>compare\<close>: a three-way comparison of
  a total preorder (the sign flips when the arguments are swapped, and
  \<open>\<ge>\<close> is transitive).
\<close>

definition lmTotalOrder :: "'l LM \<Rightarrow> bool" where
  "lmTotalOrder m \<longleftrightarrow>
     (\<forall>a b. (0 < lm_compare m a b) = (lm_compare m b a < 0)) \<and>
     (\<forall>a b c. 0 \<le> lm_compare m a b \<longrightarrow> 0 \<le> lm_compare m b c \<longrightarrow> 0 \<le> lm_compare m a c)"

definition sameKey :: "'l LM \<Rightarrow> 'l LexiconDecoderState \<Rightarrow> 'l LexiconDecoderState \<Rightarrow> bool" where
  "sameKey m a b \<longleftrightarrow>
     lm_compare m (lmState a) (lmState b) = 0 \<and> lexNode a = lexNode b \<and>
     token a = token b \<and> prevBlank a = prevBlank b"

definition keysUnique :: "'l LM \<Rightarrow> 'l LexiconDecoderState list \<Rightarrow> bool" where
  "keysUnique m fr \<longleftrightarrow>
     (\<forall>i < length fr. \<forall>j < length fr. i \<noteq> j \<longrightarrow> \<not> sameKey m (fr ! i) (fr ! j))"

text \<open>
  Strict weak orders, the comparators \<^verbatim>\<open>std::sort\<close> accepts, and their
  lexicographic combination; \<open>keyGt\<close> is the comparator of
  \<^verbatim>\<open>mergeCandidates\<close> without its last case (the score).
\<close>

definition strictWeak :: "('a \<Rightarrow> 'a \<Rightarrow> bool) \<Rightarrow> bool" where
  "strictWeak R \<longleftrightarrow>
     (\<forall>a b. R a b \<longrightarrow> \<not> R b a) \<and> (\<forall>a b c. \<not> R a b \<longrightarrow> \<not> R b c \<longrightarrow> \<not> R a c)"

definition lexComb :: "('a \<Rightarrow> 'a \<Rightarrow> bool) \<Rightarrow> ('a \<Rightarrow> 'a \<Rightarrow> bool) \<Rightarrow> 'a \<Rightarrow> 'a \<Rightarrow> bool" where
  "lexComb R S a b \<longleftrightarrow> R a b \<or> (\<not> R b a \<and> S a b)"

definition keyGt :: "'l LM \<Rightarrow> 'l LexiconDecoderState \<Rightarrow> 'l LexiconDecoderState \<Rightarrow> bool" where
  "keyGt m =
     lexComb (\<lambda>a b. 0 < lm_compare m (lmState a) (lmState b))
       (lexComb (\<lambda>a b. lexNode b < lexNode a)
          (lexComb (\<lambda>a b. token b < token a) (\<lambda>a b. prevBlank b < prevBlank a)))"

text \<open>
  What \<^verbatim>\<open>decodeEnd\<close> offers for one state, in the words of the spec, to be
  compared with \<open>decodeEndOffers\<close>.
\<close>

definition specEndExtension ::
  "'l LexiconDecoder \<Rightarrow> nat \<times> 'l LexiconDecoderState \<Rightarrow> 'l LexiconDecoderState" where
  \<comment> \<open>The extension of one state as the spec words it:
      \<open>(lm.finish(p.lm_state) \<rightarrow> (lm', s), p.lex, &p, p.score + lm_weight \<cdot> s, sil, -1, false)\<close>,
      for the state \<open>p\<close> at position \<open>j\<close> of the last frame.\<close>
  "specEndExtension d jp =
     \<lparr>lmState = fst (lm_finish (lm d) (lmState (snd jp))),
      lexNode = lexNode (snd jp),
      parent = Some (nDecodedFrames d - nPrunedFrames d, fst jp),
      score = score (snd jp) + lmWeight (opt d) * snd (lm_finish (lm d) (lmState (snd jp))),
      token = sil d, word = - 1, prevBlank = False\<rparr>"

text \<open>
  A frame is \<open>stored\<close> when it is the output of \<open>candidatesStore\<close> on some
  buffer; the running best of a buffer is \<open>bestAttained\<close> when a staged
  candidate has that score.
\<close>

definition stored :: "DecoderOptions \<Rightarrow> 'l LM \<Rightarrow> 'l LexiconDecoderState list \<Rightarrow> bool" where
  "stored opts m fr \<longleftrightarrow> (\<exists>buf rs. candidatesStore opts m buf rs = Inr fr)"

definition bestAttained :: "'l Candidates \<Rightarrow> bool" where
  "bestAttained buf \<longleftrightarrow>
     (case candidatesBestScore buf of
        None \<Rightarrow> True
      | Some b \<Rightarrow> (\<exists>c \<in> set (candidates buf). score c = b))"

section \<open>A small decoder\<close>

text \<open>
  Tokens: 0 is silence, 1 is blank, 2 is the letter \<open>a\<close>.  The lexicon has the
  single word 7, spelled \<open>a\<close>: node 0 is the root and node 1 its child under
  token 2.  The language model has one state and scores everything 0.  The
  criterion is CTC, merging keeps the maximum, and a word emission earns 1.
  The emissions are two frames of three tokens, both with \<open>a\<close> at 0 and
  silence and blank at \<open>-5\<close>.
\<close>

definition demoLM :: "nat LM" where
  "demoLM = \<lparr>lm_start = (\<lambda>_. 0), lm_score = (\<lambda>s i. (s, 0)), lm_finish = (\<lambda>s. (s, 0)),
             lm_compare = (\<lambda>a b. if a < b then - 1 else if a = b then 0 else 1)\<rparr>"

definition demoTrie :: Trie where
  "demoTrie = \<lparr>getRoot = 0,
     node = (\<lambda>i. if i = 0 then \<lparr>children = [(2, 1)], labels = [], maxScore = 0\<rparr>
                  else \<lparr>children = [], labels = [7], maxScore = 0\<rparr>)\<rparr>"

definition demoOptions :: DecoderOptions where
  "demoOptions = \<lparr>beamSize = 10, beamSizeToken = 3, beamThreshold = 100, lmWeight = 1,
     wordScore = 1, unkScore = None, silScore = 0, logAdd = False, criterionType = CTC\<rparr>"

definition demoDecoder :: "nat LexiconDecoder" where
  "demoDecoder = \<lparr>opt = demoOptions, lexicon = demoTrie, lm = demoLM, sil = 0, blank = 1,
     unk = 8, transitions = (\<lambda>_. 0), isLmToken = False, hyp = [], nDecodedFrames = 0,
     nPrunedFrames = 0\<rparr>"

definition demoEmissions :: "int \<Rightarrow> real" where
  "demoEmissions i = (if i = 2 \<or> i = 5 then 0 else - 5)"

text \<open>
  The run of the two frames: the initial state, the three states of frame 1,
  the three states of frame 2, and the decoder after \<open>decodeStep\<close>.
\<close>

definition demoInitial :: "nat LexiconDecoderState" where
  "demoInitial = \<lparr>lmState = 0, lexNode = 0, parent = None, score = 0, token = 0,
     word = - 1, prevBlank = False\<rparr>"

definition demoWordState :: "nat LexiconDecoderState" where
  "demoWordState = \<lparr>lmState = 0, lexNode = 0, parent = Some (0, 0), score = 1, token = 2,
     word = 7, prevBlank = False\<rparr>"

definition demoBlankState :: "nat LexiconDecoderState" where
  "demoBlankState = \<lparr>lmState = 0, lexNode = 0, parent = Some (0, 0), score = - 5, token = 1,
     word = - 1, prevBlank = True\<rparr>"

definition demoSilState :: "nat LexiconDecoderState" where
  "demoSilState = \<lparr>lmState = 0, lexNode = 0, parent = Some (0, 0), score = - 5, token = 0,
     word = - 1, prevBlank = False\<rparr>"

definition demoWordAgain :: "nat LexiconDecoderState" where
  "demoWordAgain = \<lparr>lmState = 0, lexNode = 0, parent = Some (1, 0), score = 2, token = 2,
     word = 7, prevBlank = False\<rparr>"

definition demoBlankAgain :: "nat LexiconDecoderState" where
  "demoBlankAgain = \<lparr>lmState = 0, lexNode = 0, parent = Some (1, 0), score = - 4, token = 1,
     word = - 1, prevBlank = True\<rparr>"

definition demoSilAgain :: "nat LexiconDecoderState" where
  "demoSilAgain = \<lparr>lmState = 0, lexNode = 0, parent = Some (1, 2), score = - 10, token = 0,
     word = - 1, prevBlank = False\<rparr>"

definition demoAfterAA :: "nat LexiconDecoder" where
  "demoAfterAA = (decodeBegin demoDecoder)
     \<lparr>hyp := [(0, [demoInitial]),
              (1, [demoWordState, demoBlankState, demoSilState]),
              (2, [demoWordAgain, demoBlankAgain, demoSilAgain]),
              (3, [])],
      nDecodedFrames := 2\<rparr>"

text \<open>
  The decoder ended right after \<open>decodeBegin\<close>; a decoder whose frame 1 is
  empty; a decoder whose frame 1 holds the word state alone; a state in the
  middle of a word.
\<close>

definition demoFinal :: "nat LexiconDecoderState" where
  "demoFinal = \<lparr>lmState = 0, lexNode = 0, parent = Some (0, 0), score = 0, token = 0,
     word = - 1, prevBlank = False\<rparr>"

definition demoEnded :: "nat LexiconDecoder" where
  "demoEnded = (decodeBegin demoDecoder)
     \<lparr>hyp := [(0, [demoInitial]), (1, [demoFinal])], nDecodedFrames := 1\<rparr>"

definition demoStalled :: "nat LexiconDecoder" where
  "demoStalled = demoDecoder\<lparr>hyp := [(0, [demoInitial]), (1, [])], nDecodedFrames := 1\<rparr>"

definition demoAfterA :: "nat LexiconDecoder" where
  "demoAfterA = demoDecoder\<lparr>hyp := [(0, [demoInitial]), (1, [demoWordState])],
     nDecodedFrames := 1\<rparr>"

definition demoMidWord :: "nat LexiconDecoderState" where
  "demoMidWord = \<lparr>lmState = 0, lexNode = 1, parent = Some (0, 0), score = - 2, token = 2,
     word = - 1, prevBlank = False\<rparr>"

text \<open>
  Three candidates with one key: two paths scoring \<open>-1\<close> and one scoring
  \<open>-3\<close>, each with its own parent.
\<close>

definition demoPathA :: "nat LexiconDecoderState" where
  "demoPathA = \<lparr>lmState = 0, lexNode = 0, parent = Some (0, 0), score = - 1, token = 2,
     word = - 1, prevBlank = False\<rparr>"

definition demoPathB :: "nat LexiconDecoderState" where
  "demoPathB = \<lparr>lmState = 0, lexNode = 0, parent = Some (0, 1), score = - 1, token = 2,
     word = - 1, prevBlank = False\<rparr>"

definition demoPathC :: "nat LexiconDecoderState" where
  "demoPathC = \<lparr>lmState = 0, lexNode = 0, parent = Some (0, 2), score = - 3, token = 2,
     word = - 1, prevBlank = False\<rparr>"

section \<open>Sorting and merging\<close>

lemma strictWeak_lexComb:
  assumes "strictWeak R" "strictWeak S"
  shows "strictWeak (lexComb R S)"
  using assms unfolding strictWeak_def lexComb_def by metis

lemma strictWeak_measure: "strictWeak (\<lambda>a b. (f b :: 'b :: linorder) < f a)"
  unfolding strictWeak_def by auto

lemma strictWeak_lm:
  assumes "lmTotalOrder m"
  shows "strictWeak (\<lambda>a b. 0 < lm_compare m (f a) (f b))"
proof -
  have A1: "\<And>a b. (0 < lm_compare m a b) = (lm_compare m b a < 0)"
    and A2: "\<And>a b c. 0 \<le> lm_compare m a b \<Longrightarrow> 0 \<le> lm_compare m b c \<Longrightarrow> 0 \<le> lm_compare m a c"
    using assms unfolding lmTotalOrder_def by blast+
  have asym: "\<not> 0 < lm_compare m y x" if "0 < lm_compare m x y" for x y
    using that A1[of x y] A1[of y x] by linarith
  have ntrans: "\<not> 0 < lm_compare m x z" if "\<not> 0 < lm_compare m x y" "\<not> 0 < lm_compare m y z" for x y z
  proof -
    have "0 \<le> lm_compare m y x" "0 \<le> lm_compare m z y"
      using that A1[of x y] A1[of y z] by linarith+
    then have "0 \<le> lm_compare m z x" using A2 by blast
    then show ?thesis using A1[of x z] by linarith
  qed
  show ?thesis unfolding strictWeak_def using asym ntrans by blast
qed

lemma strictWeak_keyGt: "lmTotalOrder m \<Longrightarrow> strictWeak (keyGt m)"
  unfolding keyGt_def
  by (intro strictWeak_lexComb strictWeak_lm strictWeak_measure)

lemma compare_is_lexComb:
  assumes "lmTotalOrder m"
  shows "compareNodesShortList m = lexComb (keyGt m) (\<lambda>a b. score b < score a)"
proof -
  have A1: "\<And>a b. (0 < lm_compare m a b) = (lm_compare m b a < 0)"
    using assms unfolding lmTotalOrder_def by blast
  have z: "lm_compare m x y = 0 \<longleftrightarrow> \<not> 0 < lm_compare m x y \<and> \<not> 0 < lm_compare m y x" for x y
    using A1[of x y] A1[of y x] by linarith
  show ?thesis
    apply (intro ext)
    apply (simp only: compareNodesShortList_def keyGt_def lexComb_def Let_def z)
    apply auto
    done
qed

lemma set_insort_by [simp]: "set (insort_by before x xs) = insert x (set xs)"
  by (induction xs) auto

lemma set_sort_by [simp]: "set (sort_by before xs) = set xs"
  by (induction xs) (auto simp: sort_by_def)

lemma length_insort_by [simp]: "length (insort_by before x xs) = Suc (length xs)"
  by (induction xs) auto

lemma length_sort_by [simp]: "length (sort_by before xs) = length xs"
  by (induction xs) (auto simp: sort_by_def)

lemma sort_by_Cons: "sort_by before (x # xs) = insort_by before x (sort_by before xs)"
  by (simp add: sort_by_def)

lemma sorted_insort_by:
  assumes sw: "strictWeak before"
    and srt: "sorted_wrt (\<lambda>a b. \<not> before b a) xs"
  shows "sorted_wrt (\<lambda>a b. \<not> before b a) (insort_by before x xs)"
  using srt
proof (induction xs)
  case Nil
  then show ?case by simp
next
  case (Cons y ys)
  have asym: "\<And>a b. before a b \<Longrightarrow> \<not> before b a"
    and nt: "\<And>a b c. \<not> before a b \<Longrightarrow> \<not> before b c \<Longrightarrow> \<not> before a c"
    using sw unfolding strictWeak_def by blast+
  show ?case
  proof (cases "before y x")
    case True
    then have "\<not> before x y" using asym by blast
    with True Cons show ?thesis by auto
  next
    case False
    have "\<not> before z x" if "z \<in> set ys" for z
    proof -
      have "\<not> before z y" using Cons.prems that by auto
      then show ?thesis using nt False by blast
    qed
    with False Cons.prems show ?thesis by auto
  qed
qed

lemma sorted_sort_by:
  "strictWeak before \<Longrightarrow> sorted_wrt (\<lambda>a b. \<not> before b a) (sort_by before xs)"
  by (induction xs) (simp_all add: sort_by_Cons sorted_insort_by, simp add: sort_by_def)

lemma symmetric_insort_by:
  assumes sym: "\<And>a b. P a b \<Longrightarrow> P b a"
    and "sorted_wrt P xs" "\<forall>y \<in> set xs. P x y"
  shows "sorted_wrt P (insort_by before x xs)"
  using assms(2,3) by (induction xs) (auto intro: sym)

lemma symmetric_sort_by:
  assumes sym: "\<And>a b. P a b \<Longrightarrow> P b a"
    and "sorted_wrt P xs"
  shows "sorted_wrt P (sort_by before xs)"
  using assms(2)
proof (induction xs)
  case Nil
  then show ?case by (simp add: sort_by_def)
next
  case (Cons x xs)
  then show ?case
    by (simp add: sort_by_Cons symmetric_insort_by [of P, OF sym])
qed

lemma keyGt_mergeStates [simp]:
  "keyGt m (mergeStates k c la) x = keyGt m k x"
  "keyGt m x (mergeStates k c la) = keyGt m x k"
  by (simp_all add: keyGt_def lexComb_def mergeStates_def)

lemma differentKey_keyGt:
  assumes "lmTotalOrder m"
  shows "differentKey m a b \<longleftrightarrow> keyGt m a b \<or> keyGt m b a"
proof -
  have A1: "\<And>a b. (0 < lm_compare m a b) = (lm_compare m b a < 0)"
    using assms unfolding lmTotalOrder_def by blast
  have z: "lm_compare m x y \<noteq> 0 \<longleftrightarrow> 0 < lm_compare m x y \<or> 0 < lm_compare m y x" for x y
    using A1[of x y] A1[of y x] by linarith
  show ?thesis
    by (simp only: differentKey_def keyGt_def lexComb_def z) auto
qed

lemma sweep_strict:
  assumes tot: "lmTotalOrder m"
  shows "sorted_wrt (\<lambda>a b. \<not> keyGt m b a) (k # cs) \<Longrightarrow>
         sorted_wrt (keyGt m) (sweep m la k cs) \<and> (\<forall>x \<in> set (sweep m la k cs). \<not> keyGt m x k)"
proof (induction cs arbitrary: k)
  case Nil
  have "\<not> keyGt m k k"
    using strictWeak_keyGt [OF tot] unfolding strictWeak_def by blast
  then show ?case by simp
next
  case (Cons c cs)
  have asym: "\<And>a b. keyGt m a b \<Longrightarrow> \<not> keyGt m b a"
    and nt: "\<And>a b c. \<not> keyGt m a b \<Longrightarrow> \<not> keyGt m b c \<Longrightarrow> \<not> keyGt m a c"
    using strictWeak_keyGt [OF tot] unfolding strictWeak_def by blast+
  have ck: "\<not> keyGt m c k" using Cons.prems by simp
  show ?case
  proof (cases "differentKey m c k")
    case True
    then have kc: "keyGt m k c" using differentKey_keyGt [OF tot] ck by blast
    have "sorted_wrt (\<lambda>a b. \<not> keyGt m b a) (c # cs)" using Cons.prems by simp
    from Cons.IH [OF this]
    have ih1: "sorted_wrt (keyGt m) (sweep m la c cs)"
      and ih2: "\<forall>x \<in> set (sweep m la c cs). \<not> keyGt m x c" by blast+
    have gt: "keyGt m k x" if "x \<in> set (sweep m la c cs)" for x
      using ih2 that kc nt by blast
    have "\<not> keyGt m k k" using asym by blast
    with True ih1 gt asym show ?thesis by auto
  next
    case False
    have "sorted_wrt (\<lambda>a b. \<not> keyGt m b a) (mergeStates k c la # cs)"
      using Cons.prems by simp
    from Cons.IH [OF this] False show ?thesis by simp
  qed
qed

lemma sameKey_differentKey: "sameKey m a b \<longleftrightarrow> \<not> differentKey m a b"
  by (auto simp: sameKey_def differentKey_def)

lemma keysUnique_sorted_wrt:
  assumes tot: "lmTotalOrder m"
  shows "keysUnique m fr \<longleftrightarrow> sorted_wrt (differentKey m) fr"
proof -
  have sym: "differentKey m a b \<Longrightarrow> differentKey m b a" for a b
    using differentKey_keyGt [OF tot] by blast
  show ?thesis
    unfolding keysUnique_def sameKey_differentKey sorted_wrt_iff_nth_less
  proof (intro iffI allI impI)
    fix i j
    assume a: "\<forall>i<length fr. \<forall>j<length fr. i \<noteq> j \<longrightarrow> \<not> \<not> differentKey m (fr ! i) (fr ! j)"
      and "i < j" "j < length fr"
    then show "differentKey m (fr ! i) (fr ! j)" by auto
  next
    fix i j
    assume a: "\<forall>i j. i < j \<longrightarrow> j < length fr \<longrightarrow> differentKey m (fr ! i) (fr ! j)"
      and b: "i < length fr" "j < length fr" "i \<noteq> j"
    show "\<not> \<not> differentKey m (fr ! i) (fr ! j)"
    proof (cases "i < j")
      case True
      with a b show ?thesis by blast
    next
      case False
      with b have "j < i" by simp
      with a b have "differentKey m (fr ! j) (fr ! i)" by blast
      then show ?thesis using sym by blast
    qed
  qed
qed

lemma mergeCandidates_unique:
  assumes tot: "lmTotalOrder m" and mc: "mergeCandidates m la ptrs = Inr out"
  shows "sorted_wrt (differentKey m) out"
proof -
  obtain c cs where s: "sort_by (compareNodesShortList m) ptrs = c # cs"
    and out: "out = sweep m la c cs"
    using mc by (auto simp: mergeCandidates_def split: list.splits)
  have sw: "strictWeak (compareNodesShortList m)"
    unfolding compare_is_lexComb [OF tot]
    by (intro strictWeak_lexComb strictWeak_keyGt [OF tot] strictWeak_measure)
  have "sorted_wrt (\<lambda>a b. \<not> compareNodesShortList m b a) (c # cs)"
    using sorted_sort_by [OF sw, of ptrs] s by simp
  then have "sorted_wrt (\<lambda>a b. \<not> keyGt m b a) (c # cs)"
    by (rule sorted_wrt_mono_rel [rotated])
       (simp add: compare_is_lexComb [OF tot] lexComb_def)
  from sweep_strict [OF tot this]
  have "sorted_wrt (keyGt m) out" unfolding out by blast
  then show ?thesis
    by (rule sorted_wrt_mono_rel [rotated]) (simp add: differentKey_keyGt [OF tot])
qed

lemma candidatesStore_unique:
  assumes tot: "lmTotalOrder m" and st: "candidatesStore opts m buf rs = Inr fr"
  shows "keysUnique m fr"
proof (cases "candidates buf = []")
  case True
  with st show ?thesis by (simp add: candidatesStore_def keysUnique_def)
next
  case False
  then obtain ptrs where mc: "mergeCandidates m (logAdd opts)
      (pruneCandidates (candidates buf)
         (map_option (\<lambda>b. b - beamThreshold opts) (candidatesBestScore buf))) = Inr ptrs"
    and fr: "fr = storeTopCandidates ptrs (beamSize opts) rs"
    using st by (auto simp: candidatesStore_def split: sum.splits)
  have sym: "differentKey m a b \<Longrightarrow> differentKey m b a" for a b
    using differentKey_keyGt [OF tot] by blast
  have "sorted_wrt (differentKey m) ptrs" using mergeCandidates_unique [OF tot mc] .
  then have "sorted_wrt (differentKey m) (sort_by (\<lambda>a b. score a > score b) ptrs)"
    using symmetric_sort_by [of "differentKey m"] sym by blast
  then have "sorted_wrt (differentKey m) fr"
    unfolding fr storeTopCandidates_def by (rule sorted_wrt_take)
  then show ?thesis using keysUnique_sorted_wrt [OF tot] by blast
qed

section \<open>Frames written by the decoder\<close>

lemma stored_Nil: "stored opts m []"
  unfolding stored_def
  by (rule exI [of _ candidatesReset], rule exI [of _ False])
     (simp add: candidatesStore_def candidatesReset_def)

lemma map_of_hyp_emplace:
  "map_of (hyp_emplace h k v) k' =
     (case map_of h k' of Some fr \<Rightarrow> Some fr | None \<Rightarrow> (if k' = k then Some v else None))"
  by (auto simp: hyp_emplace_def map_of_append map_add_def split: option.splits)

lemma hyp_at_hyp_emplace [simp]: "hyp_at (hyp_emplace h k []) k = hyp_at h k"
  by (simp add: hyp_at_def map_of_hyp_emplace split: option.splits)

lemma decodeFrame_result:
  assumes "decodeFrame d em N sf t h = Inr h'"
  shows "\<exists>fr. stored (opt d) (lm d) fr \<and>
           h' = AList.update (sf + t + 1) fr (hyp_emplace h (sf + t) [])"
  using assms unfolding decodeFrame_def Let_def stored_def
  by (auto split: sum.splits)

lemma decodeFrame_keeps:
  assumes "decodeFrame d em N sf t h = Inr h'" "map_of h k = Some fr" "k \<noteq> sf + t + 1"
  shows "map_of h' k = Some fr"
proof -
  from decodeFrame_result [OF assms(1)] obtain fr' where
    "h' = AList.update (sf + t + 1) fr' (hyp_emplace h (sf + t) [])" by blast
  then show ?thesis using assms(2,3)
    by (simp add: update_conv' map_of_hyp_emplace)
qed

lemma decodeFrame_writes:
  assumes "decodeFrame d em N sf t h = Inr h'"
  shows "\<exists>fr. map_of h' (sf + t + 1) = Some fr \<and> stored (opt d) (lm d) fr"
proof -
  from decodeFrame_result [OF assms(1)] obtain fr' where
    "stored (opt d) (lm d) fr'"
    "h' = AList.update (sf + t + 1) fr' (hyp_emplace h (sf + t) [])" by blast
  then show ?thesis by (simp add: update_conv')
qed

lemma decodeFrames_keeps:
  "decodeFrames d em N sf ts h = Inr h' \<Longrightarrow> map_of h k = Some fr \<Longrightarrow>
   \<forall>t \<in> set ts. k \<noteq> sf + t + 1 \<Longrightarrow> map_of h' k = Some fr"
proof (induction ts arbitrary: h)
  case Nil
  then show ?case by simp
next
  case (Cons t ts)
  from Cons.prems(1) obtain h1 where s1: "decodeFrame d em N sf t h = Inr h1"
    and s2: "decodeFrames d em N sf ts h1 = Inr h'"
    by (auto split: sum.splits)
  have "map_of h1 k = Some fr"
    using decodeFrame_keeps [OF s1 Cons.prems(2)] Cons.prems(3) by simp
  then show ?case using Cons.IH [OF s2] Cons.prems(3) by simp
qed

lemma decodeFrames_stored:
  "decodeFrames d em N sf ts h = Inr h' \<Longrightarrow>
   (\<exists>fr. map_of h k = Some fr \<and> stored (opt d) (lm d) fr) \<or> (\<exists>t \<in> set ts. k = sf + t + 1) \<Longrightarrow>
   \<exists>fr. map_of h' k = Some fr \<and> stored (opt d) (lm d) fr"
proof (induction ts arbitrary: h)
  case Nil
  then show ?case by simp
next
  case (Cons t ts)
  from Cons.prems(1) obtain h1 where s1: "decodeFrame d em N sf t h = Inr h1"
    and s2: "decodeFrames d em N sf ts h1 = Inr h'"
    by (auto split: sum.splits)
  have "(\<exists>fr. map_of h1 k = Some fr \<and> stored (opt d) (lm d) fr) \<or> (\<exists>t \<in> set ts. k = sf + t + 1)"
  proof (cases "k = sf + t + 1")
    case True
    then show ?thesis using decodeFrame_writes [OF s1] by simp
  next
    case False
    then show ?thesis using Cons.prems(2) decodeFrame_keeps [OF s1 _ False] by auto
  qed
  then show ?case using Cons.IH [OF s2] by blast
qed

lemma decodeStep_stored:
  assumes "decodeStep d em T N = Inr d'" "0 \<le> t" "t < T"
  shows "\<exists>fr. map_of (hyp d') (nDecodedFrames d - nPrunedFrames d + t + 1) = Some fr \<and>
           stored (opt d) (lm d) fr"
proof -
  from assms(1) obtain h0 h' where
    fr: "decodeFrames d em N (nDecodedFrames d - nPrunedFrames d) [0..T - 1] h0 = Inr h'"
    and d': "d' = d\<lparr>hyp := h', nDecodedFrames := nDecodedFrames d + T\<rparr>"
    unfolding decodeStep_def Let_def by (auto split: sum.splits)
  have "t \<in> set [0..T - 1]" using assms(2,3) by simp
  then have "\<exists>fr. map_of h' (nDecodedFrames d - nPrunedFrames d + t + 1) = Some fr \<and>
               stored (opt d) (lm d) fr"
    using decodeFrames_stored [OF fr] by blast
  then show ?thesis by (simp add: d')
qed

lemma decodeEnd_result:
  assumes "decodeEnd d = Inr d'"
  shows "\<exists>fr. candidatesStore (opt d) (lm d)
                (candidatesAddAll (opt d)
                   (decodeEndOffers d (hyp_at (hyp d) (nDecodedFrames d - nPrunedFrames d)))
                   candidatesReset) True = Inr fr \<and>
              d' = d\<lparr>hyp := AList.update (nDecodedFrames d - nPrunedFrames d + 1) fr
                             (hyp_emplace (hyp d) (nDecodedFrames d - nPrunedFrames d) []),
                     nDecodedFrames := nDecodedFrames d + 1\<rparr>"
  using assms unfolding decodeEnd_def Let_def by (auto split: sum.splits)

lemma decodeEnd_stored:
  assumes "decodeEnd d = Inr d'"
  shows "\<exists>fr. map_of (hyp d') (nDecodedFrames d - nPrunedFrames d + 1) = Some fr \<and>
           stored (opt d) (lm d) fr"
proof -
  from decodeEnd_result [OF assms] obtain fr where
    st: "candidatesStore (opt d) (lm d)
           (candidatesAddAll (opt d)
              (decodeEndOffers d (hyp_at (hyp d) (nDecodedFrames d - nPrunedFrames d)))
              candidatesReset) True = Inr fr"
    and d': "d' = d\<lparr>hyp := AList.update (nDecodedFrames d - nPrunedFrames d + 1) fr
                             (hyp_emplace (hyp d) (nDecodedFrames d - nPrunedFrames d) []),
                     nDecodedFrames := nDecodedFrames d + 1\<rparr>" by blast
  have "stored (opt d) (lm d) fr" unfolding stored_def using st by blast
  then show ?thesis by (auto simp: d' update_conv')
qed

lemma bestAttained_candidatesAdd:
  assumes "0 \<le> beamThreshold opts" "bestAttained buf"
  shows "bestAttained (candidatesAdd opts c buf)"
  using assms unfolding bestAttained_def candidatesAdd_def isValidCandidate_def
  by (auto split: option.splits simp: max_def)

lemma bestAttained_candidatesAddAll:
  assumes "0 \<le> beamThreshold opts"
  shows "bestAttained buf \<Longrightarrow> bestAttained (candidatesAddAll opts offers buf)"
  unfolding candidatesAddAll_def
  by (induction offers arbitrary: buf) (simp_all add: bestAttained_candidatesAdd [OF assms])

lemma candidatesStore_total:
  assumes thr: "0 \<le> beamThreshold opts" and ba: "bestAttained buf"
  shows "\<exists>fr. candidatesStore opts m buf rs = Inr fr"
proof (cases "candidates buf = []")
  case True
  then show ?thesis by (simp add: candidatesStore_def)
next
  case False
  let ?ptrs = "pruneCandidates (candidates buf)
                 (map_option (\<lambda>b. b - beamThreshold opts) (candidatesBestScore buf))"
  have "?ptrs \<noteq> []"
  proof (cases "candidatesBestScore buf")
    case None
    with False show ?thesis by (simp add: pruneCandidates_def)
  next
    case (Some b)
    with ba obtain c where "c \<in> set (candidates buf)" "score c = b"
      unfolding bestAttained_def by auto
    with thr Some have "c \<in> set ?ptrs" by (simp add: pruneCandidates_def)
    then show ?thesis by auto
  qed
  then have "set (sort_by (compareNodesShortList m) ?ptrs) \<noteq> {}" by simp
  then have "sort_by (compareNodesShortList m) ?ptrs \<noteq> []" by (simp del: set_sort_by)
  then obtain out where "mergeCandidates m (logAdd opts) ?ptrs = Inr out"
    unfolding mergeCandidates_def
    by (cases "sort_by (compareNodesShortList m) ?ptrs") auto
  with False show ?thesis by (simp add: candidatesStore_def)
qed

lemma built_store_total:
  assumes "0 \<le> beamThreshold opts"
  shows "\<exists>fr. candidatesStore opts m (candidatesAddAll opts offers candidatesReset) rs = Inr fr"
proof -
  have "bestAttained (candidatesReset :: 'a Candidates)"
    by (simp add: bestAttained_def candidatesReset_def)
  then show ?thesis
    using candidatesStore_total [OF assms] bestAttained_candidatesAddAll [OF assms] by blast
qed

lemma decodeFrame_total:
  assumes "0 \<le> beamThreshold (opt d)"
  shows "\<exists>h'. decodeFrame d em N sf t h = Inr h'"
proof -
  let ?offers = "concat (map (\<lambda>(j, prevHyp). expand d em t N (sf + t, j) prevHyp)
                             (enumerate 0 (hyp_at (hyp_emplace h (sf + t) []) (sf + t))))"
  from built_store_total [OF assms, of "lm d" ?offers False]
  obtain fr where "candidatesStore (opt d) (lm d)
      (candidatesAddAll (opt d) ?offers candidatesReset) False = Inr fr" by blast
  then show ?thesis unfolding decodeFrame_def Let_def by simp
qed

lemma decodeFrames_total:
  assumes "0 \<le> beamThreshold (opt d)"
  shows "\<exists>h'. decodeFrames d em N sf ts h = Inr h'"
proof (induction ts arbitrary: h)
  case Nil
  then show ?case by simp
next
  case (Cons t ts)
  from decodeFrame_total [OF assms, of em N sf t h]
  obtain h1 where "decodeFrame d em N sf t h = Inr h1" by blast
  with Cons.IH [of h1] show ?case by simp
qed

lemma decodeStep_total:
  assumes "0 \<le> beamThreshold (opt d)"
  shows "\<exists>d'. decodeStep d em T N = Inr d'"
proof -
  let ?sf = "nDecodedFrames d - nPrunedFrames d"
  let ?h0 = "fold (\<lambda>i h. hyp_emplace h i []) [int (length (hyp d))..?sf + T + 1] (hyp d)"
  from decodeFrames_total [OF assms, of em N ?sf "[0..T - 1]" ?h0]
  obtain h' where "decodeFrames d em N ?sf [0..T - 1] ?h0 = Inr h'" by blast
  then show ?thesis unfolding decodeStep_def Let_def by simp
qed

lemma decodeEnd_total:
  assumes "0 \<le> beamThreshold (opt d)"
  shows "\<exists>d'. decodeEnd d = Inr d'"
proof -
  let ?f = "nDecodedFrames d - nPrunedFrames d"
  let ?offers = "decodeEndOffers d (hyp_at (hyp_emplace (hyp d) ?f []) ?f)"
  from built_store_total [OF assms, of "lm d" ?offers True]
  obtain fr where "candidatesStore (opt d) (lm d)
      (candidatesAddAll (opt d) ?offers candidatesReset) True = Inr fr" by blast
  then show ?thesis unfolding decodeEnd_def Let_def by simp
qed

lemma candidatesStore_length:
  assumes "0 < beamSize opts" "candidatesStore opts m buf rs = Inr fr"
  shows "int (length fr) \<le> beamSize opts"
  using assms
  by (auto simp: candidatesStore_def storeTopCandidates_def split: if_splits sum.splits)

lemma findBestAncestor_Nil: "findBestAncestor h [] lookBack = None"
  by (simp add: findBestAncestor_def)

lemma sorted_storeTopCandidates:
  "sorted_wrt (\<lambda>a b. score b \<le> score a) (storeTopCandidates ptrs n rs)"
proof -
  have sw: "strictWeak (\<lambda>a b :: 'a LexiconDecoderState. score b < score a)"
    by (rule strictWeak_measure)
  have "sorted_wrt (\<lambda>a b. \<not> score a < score b)
          (sort_by (\<lambda>a b :: 'a LexiconDecoderState. score b < score a) ptrs)"
    using sorted_sort_by [OF sw] .
  then have "sorted_wrt (\<lambda>a b. score b \<le> score a)
          (sort_by (\<lambda>a b :: 'a LexiconDecoderState. score b < score a) ptrs)"
    by (simp add: not_less)
  then show ?thesis unfolding storeTopCandidates_def by (rule sorted_wrt_take)
qed

lemma sorted_candidatesStore:
  "candidatesStore opts m buf rs = Inr fr \<Longrightarrow> sorted_wrt (\<lambda>a b. score b \<le> score a) fr"
  by (auto simp: candidatesStore_def sorted_storeTopCandidates split: if_splits sum.splits)

lemma fold_emplace_keeps:
  "map_of h k = Some fr \<Longrightarrow> map_of (fold (\<lambda>i h. hyp_emplace h i []) ks h) k = Some fr"
  by (induction ks arbitrary: h) (simp_all add: map_of_hyp_emplace)

section \<open>Running the small decoder\<close>

lemma lmTotalOrder_demoLM: "lmTotalOrder demoLM"
  by (simp add: lmTotalOrder_def demoLM_def)

lemma demo_fields:
  "opt (decodeBegin demoDecoder) = demoOptions"
  "lexicon (decodeBegin demoDecoder) = demoTrie"
  "lm (decodeBegin demoDecoder) = demoLM"
  "sil (decodeBegin demoDecoder) = 0"
  "blank (decodeBegin demoDecoder) = 1"
  "unk (decodeBegin demoDecoder) = 8"
  "isLmToken (decodeBegin demoDecoder) = False"
  "nDecodedFrames (decodeBegin demoDecoder) = 0"
  "nPrunedFrames (decodeBegin demoDecoder) = 0"
  "hyp (decodeBegin demoDecoder) = [(0, [demoInitial])]"
  by (simp_all add: decodeBegin_def demoDecoder_def demoInitial_def demoLM_def demoTrie_def)

lemmas rule_defs = expand_def tokenCandidates_def tryChildren_def trySame_def tryBlank_def
  tokenScore_def demo_fields demoTrie_def demoLM_def demoOptions_def demoEmissions_def
  upto.simps Let_def

lemmas store_defs = candidatesAddAll_def candidatesAdd_def isValidCandidate_def
  candidatesReset_def candidatesStore_def pruneCandidates_def mergeCandidates_def sort_by_def
  compareNodesShortList_def differentKey_def mergeStates_def storeTopCandidates_def Let_def
  demoOptions_def demoLM_def

lemma expand_demoInitial:
  "expand (decodeBegin demoDecoder) demoEmissions 0 3 (0, 0) demoInitial =
     [demoWordState, demoSilState, demoBlankState]"
  by (simp add: rule_defs demoInitial_def demoWordState_def demoSilState_def demoBlankState_def)

lemma store_frame1:
  "candidatesStore demoOptions demoLM
     (candidatesAddAll demoOptions [demoWordState, demoSilState, demoBlankState] candidatesReset)
     False = Inr [demoWordState, demoBlankState, demoSilState]"
  by (simp add: store_defs demoWordState_def demoSilState_def demoBlankState_def)

lemma offers_frame2:
  "concat (map (\<lambda>(j, prevHyp). expand (decodeBegin demoDecoder) demoEmissions 1 3 (1, j) prevHyp)
             (enumerate 0 [demoWordState, demoBlankState, demoSilState])) =
     [demoWordAgain, demoWordAgain\<lparr>score := 1, word := - 1\<rparr>, demoBlankAgain,
      demoWordAgain\<lparr>score := - 4, parent := Some (1, 1)\<rparr>,
      demoBlankAgain\<lparr>score := - 10, parent := Some (1, 1)\<rparr>,
      demoWordAgain\<lparr>score := - 4, parent := Some (1, 2)\<rparr>,
      demoSilAgain,
      demoBlankAgain\<lparr>score := - 10, parent := Some (1, 2)\<rparr>]"
  by (simp add: rule_defs demoWordState_def demoSilState_def demoBlankState_def
      demoWordAgain_def demoBlankAgain_def demoSilAgain_def)

lemma store_frame2:
  "candidatesStore demoOptions demoLM
     (candidatesAddAll demoOptions
        [demoWordAgain, demoWordAgain\<lparr>score := 1, word := - 1\<rparr>, demoBlankAgain,
         demoWordAgain\<lparr>score := - 4, parent := Some (1, Suc 0)\<rparr>,
         demoBlankAgain\<lparr>score := - 10, parent := Some (1, Suc 0)\<rparr>,
         demoWordAgain\<lparr>score := - 4, parent := Some (1, 2)\<rparr>,
         demoSilAgain,
         demoBlankAgain\<lparr>score := - 10, parent := Some (1, 2)\<rparr>]
        candidatesReset)
     False = Inr [demoWordAgain, demoBlankAgain, demoSilAgain]"
  by (simp add: store_defs demoWordAgain_def demoBlankAgain_def demoSilAgain_def)

lemma demo_buffer:
  "fold (\<lambda>i h. hyp_emplace h i []) [1..3] [(0, [demoInitial])] =
     [(0, [demoInitial]), (1, []), (2, []), (3, [])]"
  by (simp add: hyp_emplace_def upto.simps)

lemma demo_frame1:
  "decodeFrame (decodeBegin demoDecoder) demoEmissions 3 0 0
     [(0, [demoInitial]), (1, []), (2, []), (3, [])] =
   Inr [(0, [demoInitial]), (1, [demoWordState, demoBlankState, demoSilState]), (2, []), (3, [])]"
  by (simp add: decodeFrame_def hyp_emplace_def hyp_at_def demo_fields(1,3)
      expand_demoInitial store_frame1)

lemma demo_frame2:
  "decodeFrame (decodeBegin demoDecoder) demoEmissions 3 0 1
     [(0, [demoInitial]), (1, [demoWordState, demoBlankState, demoSilState]), (2, []), (3, [])] =
   Inr [(0, [demoInitial]), (1, [demoWordState, demoBlankState, demoSilState]),
        (2, [demoWordAgain, demoBlankAgain, demoSilAgain]), (3, [])]"
  by (simp only: decodeFrame_def hyp_emplace_def hyp_at_def demo_fields(1,3) Let_def)
     (simp add: offers_frame2 store_frame2 del: enumerate_simps)

lemma demo_run:
  "decodeStep (decodeBegin demoDecoder) demoEmissions 2 3 = Inr demoAfterAA"
proof -
  have b: "[int (length (hyp (decodeBegin demoDecoder)))..
            nDecodedFrames (decodeBegin demoDecoder) - nPrunedFrames (decodeBegin demoDecoder)
            + 2 + 1] = [1..3]"
    by (simp add: demo_fields)
  have ts: "[0..2 - 1] = [0, 1::int]" by (simp add: upto.simps)
  show ?thesis
    by (simp only: decodeStep_def Let_def b ts)
       (simp add: demo_fields demo_buffer demo_frame1 demo_frame2 demoAfterAA_def)
qed

lemma demo_best:
  "getBestHypothesis demoAfterAA 0 =
     Inr \<lparr>resultScore = 2, words = [- 1, 7, 7], tokens = [0, 2, 2]\<rparr>"
  by (simp add: getBestHypothesis_def demoAfterAA_def demo_fields findBestAncestor_def
      getHypothesis_def deref_def eval_nat_numeral
      demoInitial_def demoWordState_def demoWordAgain_def demoBlankAgain_def demoSilAgain_def)

lemma demo_end: "decodeEnd (decodeBegin demoDecoder) = Inr demoEnded"
proof -
  have o: "decodeEndOffers (decodeBegin demoDecoder) [demoInitial] = [demoFinal]"
    by (simp add: decodeEndOffers_def demo_fields demoTrie_def demoLM_def demoOptions_def
        demoInitial_def demoFinal_def)
  have s: "candidatesStore demoOptions demoLM
             (candidatesAddAll demoOptions [demoFinal] candidatesReset) True = Inr [demoFinal]"
    by (simp add: store_defs demoFinal_def)
  show ?thesis
    by (simp add: decodeEnd_def demo_fields hyp_emplace_def hyp_at_def o s demoEnded_def)
qed

lemma prune_demoAfterA:
  "prune demoAfterA 0 =
     Inr (demoAfterA\<lparr>hyp := [(0, [demoWordState\<lparr>score := 0, parent := None\<rparr>]), (1, [])],
                     nPrunedFrames := 1\<rparr>)"
  by (simp add: prune_def demoAfterA_def demoDecoder_def findBestAncestor_def
      pruneAndNormalize_def hyp_at_def demoWordState_def demoInitial_def)

section \<open>Ties of the comparator\<close>

text \<open>
  The comparator orders candidates by key and then by score, and no further:
  two candidates with one key and one score are left unordered, and the
  parent that the merged state keeps is that of the one the sort puts first.
\<close>

lemma comparator_leaves_ties:
  "demoPathA \<noteq> demoPathB \<and>
   \<not> compareNodesShortList demoLM demoPathA demoPathB \<and>
   \<not> compareNodesShortList demoLM demoPathB demoPathA"
proof -
  have "parent demoPathA \<noteq> parent demoPathB"
    by (simp add: demoPathA_def demoPathB_def)
  then have "demoPathA \<noteq> demoPathB" by auto
  then show ?thesis
    by (simp add: compareNodesShortList_def demoLM_def demoPathA_def demoPathB_def)
qed

lemma merge_follows_tie_order:
  "mergeCandidates demoLM False [demoPathA, demoPathB] = Inr [demoPathA] \<and>
   mergeCandidates demoLM False [demoPathB, demoPathA] = Inr [demoPathB]"
  by (simp add: mergeCandidates_def sort_by_def compareNodesShortList_def differentKey_def
      mergeStates_def demoLM_def demoPathA_def demoPathB_def)

section \<open>A token repeated with no blank between\<close>

lemma ctc_repeat_no_continue:
  assumes "criterionType (opt d) = CTC" "\<not> prevBlank p"
  shows "\<forall>c \<in> set (tryChildren d emissions t N ptr p (token p)).
           lexNode c = getRoot (lexicon d)"
  using assms by (auto simp: tryChildren_def Let_def split: option.splits if_splits)

text \<open>
  C1 fails on the code.  Under CTC, with \<open>prevBlank\<close> unset and the candidate
  token equal to the previous token, the guard of rule (1) suppresses only the
  continue-spelling candidate; the loop over the child's labels runs outside
  the guard.  For the word 7 spelled \<open>a\<close>, the state that has just emitted
  the word is offered the same word again on a second frame of \<open>a\<close>, and the
  best hypothesis over the two frames \<open>a a\<close>, with no blank between, holds
  the word twice.
\<close>

theorem ctc_repeated_token_emits_word_again:
  "criterionType (opt (decodeBegin demoDecoder)) = CTC \<and>
   \<not> prevBlank demoWordState \<and> token demoWordState = 2 \<and>
   map_of (children (node (lexicon (decodeBegin demoDecoder)) (lexNode demoWordState))) 2
     = Some 1 \<and>
   tryChildren (decodeBegin demoDecoder) demoEmissions 1 3 (1, 0) demoWordState 2
     = [demoWordAgain] \<and>
   word demoWordState = 7 \<and> word demoWordAgain = 7 \<and>
   decodeStep (decodeBegin demoDecoder) demoEmissions 2 3 = Inr demoAfterAA \<and>
   getBestHypothesis demoAfterAA 0 =
     Inr \<lparr>resultScore = 2, words = [- 1, 7, 7], tokens = [0, 2, 2]\<rparr>"
proof -
  have "tryChildren (decodeBegin demoDecoder) demoEmissions 1 3 (1, 0) demoWordState 2
          = [demoWordAgain]"
    by (simp add: rule_defs demoWordState_def demoWordAgain_def)
  moreover have "map_of (children (node (lexicon (decodeBegin demoDecoder))
                   (lexNode demoWordState))) 2 = Some 1"
    by (simp add: demo_fields demoTrie_def demoWordState_def)
  moreover have "criterionType (opt (decodeBegin demoDecoder)) = CTC"
    by (simp add: demo_fields demoOptions_def)
  moreover have "\<not> prevBlank demoWordState" "token demoWordState = 2"
    "word demoWordState = 7" "word demoWordAgain = 7"
    by (simp_all add: demoWordState_def demoWordAgain_def)
  ultimately show ?thesis using demo_run demo_best by simp
qed

theorem ctc_repeated_token_emits_word_again_witness:
  "tryChildren (decodeBegin demoDecoder) demoEmissions 1 3 (1, 0) demoWordState 2 \<noteq> [] \<and>
   (\<exists>r. getBestHypothesis demoAfterAA 0 = Inr r \<and> words r = [- 1, 7, 7])"
  using ctc_repeated_token_emits_word_again by simp

section \<open>Unique keys in a stored frame\<close>

text \<open>
  C2: after every \<open>candidatesStore\<close>, hence in each frame that \<open>decodeStep\<close>
  and \<open>decodeEnd\<close> produce, no two states share the equivalence key.
\<close>

theorem stored_frame_keys_unique:
  assumes tot: "lmTotalOrder (lm d)"
  shows "(\<forall>buf rs fr. candidatesStore (opt d) (lm d) buf rs = Inr fr \<longrightarrow> keysUnique (lm d) fr) \<and>
         (\<forall>d' t. decodeStep d emissions T N = Inr d' \<longrightarrow> 0 \<le> t \<longrightarrow> t < T \<longrightarrow>
            (\<exists>fr. map_of (hyp d') (nDecodedFrames d - nPrunedFrames d + t + 1) = Some fr \<and>
                  keysUnique (lm d) fr)) \<and>
         (\<forall>d'. decodeEnd d = Inr d' \<longrightarrow>
            (\<exists>fr. map_of (hyp d') (nDecodedFrames d - nPrunedFrames d + 1) = Some fr \<and>
                  keysUnique (lm d) fr)) \<and>
         (0 \<le> beamThreshold (opt d) \<longrightarrow>
            (\<exists>d'. decodeStep d emissions T N = Inr d') \<and> (\<exists>d'. decodeEnd d = Inr d'))"
proof -
  have u: "keysUnique (lm d) fr" if "stored (opt d) (lm d) fr" for fr
    using that candidatesStore_unique [OF tot] unfolding stored_def by blast
  have a: "\<forall>buf rs fr. candidatesStore (opt d) (lm d) buf rs = Inr fr \<longrightarrow> keysUnique (lm d) fr"
    using candidatesStore_unique [OF tot] by blast
  have b: "\<forall>d' t. decodeStep d emissions T N = Inr d' \<longrightarrow> 0 \<le> t \<longrightarrow> t < T \<longrightarrow>
            (\<exists>fr. map_of (hyp d') (nDecodedFrames d - nPrunedFrames d + t + 1) = Some fr \<and>
                  keysUnique (lm d) fr)"
    using decodeStep_stored u by blast
  have c: "\<forall>d'. decodeEnd d = Inr d' \<longrightarrow>
            (\<exists>fr. map_of (hyp d') (nDecodedFrames d - nPrunedFrames d + 1) = Some fr \<and>
                  keysUnique (lm d) fr)"
    using decodeEnd_stored u by blast
  have e: "0 \<le> beamThreshold (opt d) \<longrightarrow>
            (\<exists>d'. decodeStep d emissions T N = Inr d') \<and> (\<exists>d'. decodeEnd d = Inr d')"
    using decodeStep_total decodeEnd_total by blast
  from a b c e show ?thesis by blast
qed

theorem stored_frame_keys_unique_witness:
  "lmTotalOrder (lm (decodeBegin demoDecoder)) \<and>
   candidatesStore (opt (decodeBegin demoDecoder)) (lm (decodeBegin demoDecoder))
     (candidatesAddAll demoOptions [demoWordState, demoSilState, demoBlankState] candidatesReset)
     False = Inr [demoWordState, demoBlankState, demoSilState] \<and>
   keysUnique demoLM [demoWordState, demoBlankState, demoSilState] \<and>
   decodeStep (decodeBegin demoDecoder) demoEmissions 2 3 = Inr demoAfterAA \<and>
   map_of (hyp demoAfterAA) 2 = Some [demoWordAgain, demoBlankAgain, demoSilAgain] \<and>
   keysUnique demoLM [demoWordAgain, demoBlankAgain, demoSilAgain] \<and>
   decodeEnd (decodeBegin demoDecoder) = Inr demoEnded \<and>
   map_of (hyp demoEnded) 1 = Some [demoFinal] \<and>
   keysUnique demoLM [demoFinal] \<and>
   0 \<le> beamThreshold (opt (decodeBegin demoDecoder))"
proof -
  let ?d = "decodeBegin demoDecoder"
  have tot: "lmTotalOrder (lm ?d)"
    unfolding demo_fields by (rule lmTotalOrder_demoLM)
  have thr: "0 \<le> beamThreshold (opt ?d)" by (simp add: demo_fields demoOptions_def)
  have st: "candidatesStore (opt ?d) (lm ?d)
      (candidatesAddAll demoOptions [demoWordState, demoSilState, demoBlankState] candidatesReset)
      False = Inr [demoWordState, demoBlankState, demoSilState]"
    unfolding demo_fields by (rule store_frame1)
  have f2: "map_of (hyp demoAfterAA) 2 = Some [demoWordAgain, demoBlankAgain, demoSilAgain]"
    by (simp add: demoAfterAA_def)
  have f1: "map_of (hyp demoEnded) 1 = Some [demoFinal]"
    by (simp add: demoEnded_def)
  note inst = stored_frame_keys_unique [OF tot, of demoEmissions 2 3]
  from inst st have u1: "keysUnique demoLM [demoWordState, demoBlankState, demoSilState]"
    unfolding demo_fields by blast
  have "\<exists>fr. map_of (hyp demoAfterAA) (nDecodedFrames ?d - nPrunedFrames ?d + t + 1) = Some fr \<and>
          keysUnique (lm ?d) fr" if "0 \<le> t" "t < 2" for t
    using inst demo_run that by blast
  from this [of 1] have u2: "keysUnique demoLM [demoWordAgain, demoBlankAgain, demoSilAgain]"
    using f2 by (simp add: demo_fields)
  from inst demo_end have
    "\<exists>fr. map_of (hyp demoEnded) (nDecodedFrames ?d - nPrunedFrames ?d + 1) = Some fr \<and>
          keysUnique (lm ?d) fr"
    by blast
  then have u3: "keysUnique demoLM [demoFinal]"
    using f1 by (simp add: demo_fields)
  from tot thr st u1 demo_run f2 u2 demo_end f1 u3 show ?thesis by blast
qed

section \<open>Merging two candidates\<close>

lemma log_add_commute: "log_add a b = log_add b a"
  by (simp add: log_add_def max.commute abs_minus_commute)

lemma sameKey_sym: "lmTotalOrder m \<Longrightarrow> sameKey m a b \<Longrightarrow> sameKey m b a"
  using differentKey_keyGt [of m] by (auto simp: sameKey_differentKey)

text \<open>
  C3: merging two candidates with equal keys gives one state whose score is
  the log-add of the two scores when \<open>logAdd\<close> is set and their maximum
  otherwise, and whose parent is that of the higher-scoring candidate; two
  scores of \<open>-1\<close> give \<open>-1 + ln 2\<close> with log-add and \<open>-1\<close> without.
\<close>

theorem merge_two_equal_keys:
  assumes tot: "lmTotalOrder m" and key: "sameKey m a b"
  shows "\<exists>c. mergeCandidates m la [a, b] = Inr [c] \<and>
           score c = (if la then log_add (score a) (score b) else max (score a) (score b)) \<and>
           (score b < score a \<longrightarrow> parent c = parent a) \<and>
           (score a < score b \<longrightarrow> parent c = parent b) \<and>
           (parent c = parent a \<or> parent c = parent b) \<and>
           (score a = - 1 \<longrightarrow> score b = - 1 \<longrightarrow> score c = (if la then - 1 + ln 2 else - 1))"
proof -
  have kab: "\<not> differentKey m a b" using key by (simp add: sameKey_differentKey)
  have kba: "\<not> differentKey m b a"
    using sameKey_sym [OF tot key] by (simp add: sameKey_differentKey)
  have "\<not> keyGt m a b" "\<not> keyGt m b a"
    using kab kba differentKey_keyGt [OF tot] by blast+
  then have cmp: "compareNodesShortList m b a \<longleftrightarrow> score a < score b"
    by (simp add: compare_is_lexComb [OF tot] lexComb_def)
  have one: "log_add (- 1) (- 1) = - 1 + ln 2" by (simp add: log_add_def)
  show ?thesis
  proof (cases "score a < score b")
    case True
    then have "mergeCandidates m la [a, b] = Inr [mergeStates b a la]"
      using cmp kab by (simp add: mergeCandidates_def sort_by_def)
    with True show ?thesis
      by (auto simp: mergeStates_def log_add_commute max.commute)
  next
    case False
    then have "mergeCandidates m la [a, b] = Inr [mergeStates a b la]"
      using cmp kba by (simp add: mergeCandidates_def sort_by_def)
    with False show ?thesis
      by (auto simp: mergeStates_def one)
  qed
qed

theorem merge_two_equal_keys_witness:
  "lmTotalOrder demoLM \<and> sameKey demoLM demoPathA demoPathB \<and>
   (\<exists>c. mergeCandidates demoLM True [demoPathA, demoPathB] = Inr [c] \<and> score c = - 1 + ln 2) \<and>
   (\<exists>c. mergeCandidates demoLM False [demoPathA, demoPathB] = Inr [c] \<and> score c = - 1) \<and>
   sameKey demoLM demoPathA demoPathC \<and> score demoPathC < score demoPathA \<and>
   (\<exists>c. mergeCandidates demoLM False [demoPathA, demoPathC] = Inr [c] \<and>
        score c = - 1 \<and> parent c = Some (0, 0)) \<and>
   sameKey demoLM demoPathC demoPathA \<and>
   (\<exists>c. mergeCandidates demoLM False [demoPathC, demoPathA] = Inr [c] \<and>
        score c = - 1 \<and> parent c = Some (0, 0))"
proof -
  have k1: "sameKey demoLM demoPathA demoPathB"
    by (simp add: sameKey_def demoLM_def demoPathA_def demoPathB_def)
  have k2: "sameKey demoLM demoPathA demoPathC"
    by (simp add: sameKey_def demoLM_def demoPathA_def demoPathC_def)
  have k3: "sameKey demoLM demoPathC demoPathA"
    by (simp add: sameKey_def demoLM_def demoPathA_def demoPathC_def)
  have sc: "score demoPathA = - 1" "score demoPathB = - 1" "score demoPathC = - 3"
    "parent demoPathA = Some (0, 0)"
    by (simp_all add: demoPathA_def demoPathB_def demoPathC_def)
  have lt: "score demoPathC < score demoPathA" by (simp add: sc)
  have w1: "\<exists>c. mergeCandidates demoLM True [demoPathA, demoPathB] = Inr [c] \<and>
              score c = - 1 + ln 2"
    using merge_two_equal_keys [OF lmTotalOrder_demoLM k1, of True] sc by auto
  have w2: "\<exists>c. mergeCandidates demoLM False [demoPathA, demoPathB] = Inr [c] \<and> score c = - 1"
    using merge_two_equal_keys [OF lmTotalOrder_demoLM k1, of False] sc by auto
  have w3: "\<exists>c. mergeCandidates demoLM False [demoPathA, demoPathC] = Inr [c] \<and>
              score c = - 1 \<and> parent c = Some (0, 0)"
    using merge_two_equal_keys [OF lmTotalOrder_demoLM k2, of False] sc by auto
  have w4: "\<exists>c. mergeCandidates demoLM False [demoPathC, demoPathA] = Inr [c] \<and>
              score c = - 1 \<and> parent c = Some (0, 0)"
    using merge_two_equal_keys [OF lmTotalOrder_demoLM k3, of False] sc by auto
  from lmTotalOrder_demoLM k1 k2 k3 lt w1 w2 w3 w4 show ?thesis by blast
qed

section \<open>The last frame\<close>

lemma concat_map_if:
  "concat (map (\<lambda>x. if P x then [f x] else []) xs) = map f (filter P xs)"
  by (induction xs) auto

lemma decodeEndOffers_alt:
  "decodeEndOffers d prev =
     map (specEndExtension d)
       (filter (\<lambda>jp. \<not> (\<exists>q \<in> set prev. lexNode q = getRoot (lexicon d))
                      \<or> lexNode (snd jp) = getRoot (lexicon d))
          (enumerate 0 prev))"
proof -
  have "decodeEndOffers d prev =
     concat (map (\<lambda>jp. if \<not> (\<exists>q \<in> set prev. lexNode q = getRoot (lexicon d))
                           \<or> lexNode (snd jp) = getRoot (lexicon d)
                        then [specEndExtension d jp] else [])
               (enumerate 0 prev))"
    unfolding decodeEndOffers_def Let_def specEndExtension_def
    by (simp add: case_prod_unfold)
  then show ?thesis by (simp only: concat_map_if)
qed

text \<open>
  C4: \<open>decodeEnd\<close> extends only the states at the trie root when the last
  frame has one, and every state otherwise; each extension is the candidate
  of \<open>specEndExtension\<close>; the result is stored sorted by descending score in
  the next frame and \<open>nDecodedFrames\<close> grows by exactly 1.
\<close>

theorem decodeEnd_extends_nice_endings:
  "((\<exists>q \<in> set prev. lexNode q = getRoot (lexicon d)) \<longrightarrow>
      decodeEndOffers d prev =
        map (specEndExtension d)
          (filter (\<lambda>jp. lexNode (snd jp) = getRoot (lexicon d)) (enumerate 0 prev))) \<and>
   (\<not> (\<exists>q \<in> set prev. lexNode q = getRoot (lexicon d)) \<longrightarrow>
      decodeEndOffers d prev = map (specEndExtension d) (enumerate 0 prev)) \<and>
   (\<forall>d'. decodeEnd d = Inr d' \<longrightarrow>
      nDecodedFrames d' = nDecodedFrames d + 1 \<and> nPrunedFrames d' = nPrunedFrames d \<and>
      (\<exists>fr. candidatesStore (opt d) (lm d)
               (candidatesAddAll (opt d)
                  (decodeEndOffers d (hyp_at (hyp d) (nDecodedFrames d - nPrunedFrames d)))
                  candidatesReset) True = Inr fr \<and>
            map_of (hyp d') (nDecodedFrames d - nPrunedFrames d + 1) = Some fr \<and>
            sorted_wrt (\<lambda>a b. score b \<le> score a) fr)) \<and>
   (0 \<le> beamThreshold (opt d) \<longrightarrow> (\<exists>d'. decodeEnd d = Inr d'))"
proof -
  have a: "(\<exists>q \<in> set prev. lexNode q = getRoot (lexicon d)) \<longrightarrow>
      decodeEndOffers d prev =
        map (specEndExtension d)
          (filter (\<lambda>jp. lexNode (snd jp) = getRoot (lexicon d)) (enumerate 0 prev))"
    by (simp add: decodeEndOffers_alt)
  have b: "\<not> (\<exists>q \<in> set prev. lexNode q = getRoot (lexicon d)) \<longrightarrow>
      decodeEndOffers d prev = map (specEndExtension d) (enumerate 0 prev)"
    by (simp add: decodeEndOffers_alt)
  have c: "nDecodedFrames d' = nDecodedFrames d + 1 \<and> nPrunedFrames d' = nPrunedFrames d \<and>
      (\<exists>fr. candidatesStore (opt d) (lm d)
               (candidatesAddAll (opt d)
                  (decodeEndOffers d (hyp_at (hyp d) (nDecodedFrames d - nPrunedFrames d)))
                  candidatesReset) True = Inr fr \<and>
            map_of (hyp d') (nDecodedFrames d - nPrunedFrames d + 1) = Some fr \<and>
            sorted_wrt (\<lambda>a b. score b \<le> score a) fr)"
    if "decodeEnd d = Inr d'" for d'
  proof -
    from decodeEnd_result [OF that] obtain fr where
      st: "candidatesStore (opt d) (lm d)
             (candidatesAddAll (opt d)
                (decodeEndOffers d (hyp_at (hyp d) (nDecodedFrames d - nPrunedFrames d)))
                candidatesReset) True = Inr fr"
      and d': "d' = d\<lparr>hyp := AList.update (nDecodedFrames d - nPrunedFrames d + 1) fr
                             (hyp_emplace (hyp d) (nDecodedFrames d - nPrunedFrames d) []),
                     nDecodedFrames := nDecodedFrames d + 1\<rparr>" by blast
    have "map_of (hyp d') (nDecodedFrames d - nPrunedFrames d + 1) = Some fr"
      by (simp add: d' update_conv')
    with st sorted_candidatesStore [OF st] show ?thesis by (auto simp: d')
  qed
  have e: "0 \<le> beamThreshold (opt d) \<longrightarrow> (\<exists>d'. decodeEnd d = Inr d')"
    using decodeEnd_total by blast
  from a b c e show ?thesis by blast
qed

theorem decodeEnd_extends_nice_endings_witness:
  "(\<exists>q \<in> set [demoInitial, demoMidWord]. lexNode q = getRoot (lexicon demoDecoder)) \<and>
   decodeEndOffers demoDecoder [demoInitial, demoMidWord] =
     [specEndExtension demoDecoder (0, demoInitial)] \<and>
   \<not> (\<exists>q \<in> set [demoMidWord]. lexNode q = getRoot (lexicon demoDecoder)) \<and>
   decodeEndOffers demoDecoder [demoMidWord] = [specEndExtension demoDecoder (0, demoMidWord)] \<and>
   0 \<le> beamThreshold (opt (decodeBegin demoDecoder)) \<and>
   decodeEnd (decodeBegin demoDecoder) = Inr demoEnded \<and>
   nDecodedFrames demoEnded = nDecodedFrames (decodeBegin demoDecoder) + 1 \<and>
   map_of (hyp demoEnded) 1 = Some [demoFinal] \<and>
   sorted_wrt (\<lambda>a b. score b \<le> score a) [demoFinal]"
proof -
  let ?d = "decodeBegin demoDecoder"
  have r1: "\<exists>q \<in> set [demoInitial, demoMidWord]. lexNode q = getRoot (lexicon demoDecoder)"
    by (simp add: demoInitial_def demoDecoder_def demoTrie_def)
  have r2: "\<not> (\<exists>q \<in> set [demoMidWord]. lexNode q = getRoot (lexicon demoDecoder))"
    by (simp add: demoMidWord_def demoDecoder_def demoTrie_def)
  have f1: "filter (\<lambda>jp. lexNode (snd jp) = getRoot (lexicon demoDecoder))
              (enumerate 0 [demoInitial, demoMidWord]) = [(0, demoInitial)]"
    by (simp add: demoInitial_def demoMidWord_def demoDecoder_def demoTrie_def)
  have o1: "decodeEndOffers demoDecoder [demoInitial, demoMidWord] =
              [specEndExtension demoDecoder (0, demoInitial)]"
  proof -
    have "decodeEndOffers demoDecoder [demoInitial, demoMidWord] =
            map (specEndExtension demoDecoder)
              (filter (\<lambda>jp. lexNode (snd jp) = getRoot (lexicon demoDecoder))
                 (enumerate 0 [demoInitial, demoMidWord]))"
      using decodeEnd_extends_nice_endings [of "[demoInitial, demoMidWord]" demoDecoder] r1
      by blast
    then show ?thesis by (simp only: f1 list.map)
  qed
  have o2: "decodeEndOffers demoDecoder [demoMidWord] =
              [specEndExtension demoDecoder (0, demoMidWord)]"
    using decodeEnd_extends_nice_endings [of "[demoMidWord]" demoDecoder] r2 by simp
  have thr: "0 \<le> beamThreshold (opt ?d)"
    by (simp add: demo_fields demoOptions_def)
  have fr: "map_of (hyp demoEnded) 1 = Some [demoFinal]" by (simp add: demoEnded_def)
  from decodeEnd_extends_nice_endings [of "[]" ?d] demo_end have
    "nDecodedFrames demoEnded = nDecodedFrames ?d + 1 \<and>
     (\<exists>fr. map_of (hyp demoEnded) (nDecodedFrames ?d - nPrunedFrames ?d + 1) = Some fr \<and>
           sorted_wrt (\<lambda>a b. score b \<le> score a) fr)"
    by blast
  then have "nDecodedFrames demoEnded = nDecodedFrames ?d + 1 \<and>
     sorted_wrt (\<lambda>a b. score b \<le> score a) [demoFinal]"
    using fr by (simp add: demo_fields)
  with r1 r2 o1 o2 thr demo_end fr show ?thesis by blast
qed

section \<open>Prune with too little history\<close>

text \<open>
  C5: when \<open>nDecodedFrames - nPrunedFrames - lookBack < 1\<close>, \<open>prune\<close> returns
  and leaves the whole decoder state as it was.
\<close>

theorem prune_insufficient_history:
  "nDecodedFrames d - nPrunedFrames d - lookBack < 1 \<Longrightarrow> prune d lookBack = Inr d"
  by (simp add: prune_def)

theorem prune_insufficient_history_witness:
  "nDecodedFrames (decodeBegin demoDecoder) - nPrunedFrames (decodeBegin demoDecoder) - 0 < 1 \<and>
   prune (decodeBegin demoDecoder) 0 = Inr (decodeBegin demoDecoder)"
proof -
  have h: "nDecodedFrames (decodeBegin demoDecoder) - nPrunedFrames (decodeBegin demoDecoder) - 0 < 1"
    by (simp add: decodeBegin_def)
  show ?thesis using h prune_insufficient_history [OF h] by simp
qed

section \<open>The blank rule\<close>

lemma tryChildren_not_prevBlank:
  "c \<in> set (tryChildren d emissions t N ptr prevHyp n) \<Longrightarrow> \<not> prevBlank c"
  by (auto simp: tryChildren_def Let_def split: option.splits if_splits)

lemma filter_prevBlank_tryChildren:
  "filter prevBlank (concat (map (tryChildren d emissions t N ptr prevHyp) ns)) = []"
  by (auto simp: filter_empty_conv dest: tryChildren_not_prevBlank)

text \<open>
  C7: under CTC, rule (3) offers for every previous state exactly one blank
  candidate: same trie node and LM state, token \<open>blank\<close>, word \<open>-1\<close>,
  \<open>prevBlank\<close> set, score \<open>p.score + emit[blank]\<close> with no transition, no
  silence bonus and no LM term; it is the only candidate of the state with
  \<open>prevBlank\<close> set.
\<close>

theorem blank_rule_under_ctc:
  assumes "criterionType (opt d) = CTC"
  shows "tryBlank d emissions t N ptr p =
           [\<lparr>lmState = lmState p, lexNode = lexNode p, parent = Some ptr,
             score = score p + emissions (t * N + blank d),
             token = blank d, word = - 1, prevBlank = True\<rparr>] \<and>
         filter prevBlank (expand d emissions t N ptr p) = tryBlank d emissions t N ptr p"
  using assms
  by (simp add: expand_def filter_prevBlank_tryChildren tryBlank_def trySame_def)

theorem blank_rule_under_ctc_witness:
  "criterionType (opt demoDecoder) = CTC \<and>
   tryBlank demoDecoder demoEmissions 1 3 (1, 0) demoWordState =
     [\<lparr>lmState = 0, lexNode = 0, parent = Some (1, 0), score = - 4, token = 1, word = - 1,
       prevBlank = True\<rparr>] \<and>
   filter prevBlank (expand demoDecoder demoEmissions 1 3 (1, 0) demoWordState) =
     [\<lparr>lmState = 0, lexNode = 0, parent = Some (1, 0), score = - 4, token = 1, word = - 1,
       prevBlank = True\<rparr>]"
proof -
  have h: "criterionType (opt demoDecoder) = CTC"
    by (simp add: demoDecoder_def demoOptions_def)
  have v: "\<lparr>lmState = lmState demoWordState, lexNode = lexNode demoWordState,
            parent = Some (1, 0),
            score = score demoWordState + demoEmissions (1 * 3 + blank demoDecoder),
            token = blank demoDecoder, word = - 1, prevBlank = True\<rparr>
          = \<lparr>lmState = 0, lexNode = 0, parent = Some (1, 0), score = - 4, token = 1,
             word = - 1, prevBlank = True\<rparr>"
    by (simp add: demoWordState_def demoEmissions_def demoDecoder_def)
  show ?thesis
    using h blank_rule_under_ctc [OF h, of demoEmissions 1 3 "(1, 0)" demoWordState]
    unfolding v by simp
qed

section \<open>The size of a stored frame\<close>

text \<open>
  C8: every frame that \<open>decodeStep\<close> and \<open>decodeEnd\<close> produce holds at most
  \<open>beamSize\<close> states, for every input and every positive \<open>beamSize\<close>.
\<close>

theorem stored_frame_size_bounded:
  assumes pos: "0 < beamSize (opt d)"
  shows "(\<forall>d' t. decodeStep d emissions T N = Inr d' \<longrightarrow> 0 \<le> t \<longrightarrow> t < T \<longrightarrow>
            (\<exists>fr. map_of (hyp d') (nDecodedFrames d - nPrunedFrames d + t + 1) = Some fr \<and>
                  int (length fr) \<le> beamSize (opt d))) \<and>
         (\<forall>d'. decodeEnd d = Inr d' \<longrightarrow>
            (\<exists>fr. map_of (hyp d') (nDecodedFrames d - nPrunedFrames d + 1) = Some fr \<and>
                  int (length fr) \<le> beamSize (opt d))) \<and>
         (0 \<le> beamThreshold (opt d) \<longrightarrow>
            (\<exists>d'. decodeStep d emissions T N = Inr d') \<and> (\<exists>d'. decodeEnd d = Inr d'))"
proof -
  have u: "int (length fr) \<le> beamSize (opt d)" if "stored (opt d) (lm d) fr" for fr
    using that candidatesStore_length [OF pos] unfolding stored_def by blast
  have b: "\<forall>d' t. decodeStep d emissions T N = Inr d' \<longrightarrow> 0 \<le> t \<longrightarrow> t < T \<longrightarrow>
            (\<exists>fr. map_of (hyp d') (nDecodedFrames d - nPrunedFrames d + t + 1) = Some fr \<and>
                  int (length fr) \<le> beamSize (opt d))"
    using decodeStep_stored u by blast
  have c: "\<forall>d'. decodeEnd d = Inr d' \<longrightarrow>
            (\<exists>fr. map_of (hyp d') (nDecodedFrames d - nPrunedFrames d + 1) = Some fr \<and>
                  int (length fr) \<le> beamSize (opt d))"
    using decodeEnd_stored u by blast
  have e: "0 \<le> beamThreshold (opt d) \<longrightarrow>
            (\<exists>d'. decodeStep d emissions T N = Inr d') \<and> (\<exists>d'. decodeEnd d = Inr d')"
    using decodeStep_total decodeEnd_total by blast
  from b c e show ?thesis by blast
qed

theorem stored_frame_size_bounded_witness:
  "0 < beamSize (opt (decodeBegin demoDecoder)) \<and>
   beamSize (opt (decodeBegin demoDecoder)) = 10 \<and>
   decodeStep (decodeBegin demoDecoder) demoEmissions 2 3 = Inr demoAfterAA \<and>
   (\<exists>fr. map_of (hyp demoAfterAA) 1 = Some fr \<and> int (length fr) \<le> 10) \<and>
   (\<exists>fr. map_of (hyp demoAfterAA) 2 = Some fr \<and> int (length fr) \<le> 10) \<and>
   decodeEnd (decodeBegin demoDecoder) = Inr demoEnded \<and>
   (\<exists>fr. map_of (hyp demoEnded) 1 = Some fr \<and> int (length fr) \<le> 10) \<and>
   0 \<le> beamThreshold (opt (decodeBegin demoDecoder))"
proof -
  let ?d = "decodeBegin demoDecoder"
  have bs: "beamSize (opt ?d) = 10" by (simp add: demo_fields demoOptions_def)
  have pos: "0 < beamSize (opt ?d)" unfolding bs by simp
  have thr: "0 \<le> beamThreshold (opt ?d)" by (simp add: demo_fields demoOptions_def)
  have fr0: "nDecodedFrames ?d - nPrunedFrames ?d = 0" by (simp add: demo_fields)
  note inst = stored_frame_size_bounded [OF pos, of demoEmissions 2 3, unfolded fr0 bs]
  have st: "\<exists>fr. map_of (hyp demoAfterAA) (0 + t + 1) = Some fr \<and> int (length fr) \<le> 10"
    if "0 \<le> t" "t < 2" for t
    using inst demo_run that by blast
  have f1: "\<exists>fr. map_of (hyp demoAfterAA) 1 = Some fr \<and> int (length fr) \<le> 10"
    using st [of 0] by simp
  have f2: "\<exists>fr. map_of (hyp demoAfterAA) 2 = Some fr \<and> int (length fr) \<le> 10"
    using st [of 1] by simp
  have f3: "\<exists>fr. map_of (hyp demoEnded) 1 = Some fr \<and> int (length fr) \<le> 10"
    using inst demo_end by simp
  from pos bs thr demo_run f1 f2 demo_end f3 show ?thesis by blast
qed

section \<open>Empty frames\<close>

lemma candidatesStore_empty:
  "candidates buf = [] \<Longrightarrow> candidatesStore opts m buf rs = Inr []"
  by (simp add: candidatesStore_def)

lemma decodeFrame_empty:
  assumes "map_of h (sf + t) = Some []"
  shows "decodeFrame d em N sf t h = Inr (AList.update (sf + t + 1) [] (hyp_emplace h (sf + t) []))"
proof -
  have "hyp_at (hyp_emplace h (sf + t) []) (sf + t) = []"
    using assms by (simp add: hyp_at_def map_of_hyp_emplace)
  then show ?thesis
    unfolding decodeFrame_def Let_def
    by (simp add: candidatesAddAll_def candidatesReset_def candidatesStore_def)
qed

lemma decodeFrames_empty:
  "map_of h (sf + t0) = Some [] \<Longrightarrow>
   \<exists>h'. decodeFrames d em N sf [t0..t1] h = Inr h' \<and>
        (\<forall>k. sf + t0 \<le> k \<and> k \<le> sf + t1 + 1 \<and> t0 \<le> t1 + 1 \<longrightarrow> map_of h' k = Some [])"
proof (induction t0 t1 arbitrary: h rule: upto.induct)
  case (1 i j)
  show ?case
  proof (cases "i \<le> j")
    case False
    then have nil: "[i..j] = []" by simp
    have "map_of h k = Some []" if "sf + i \<le> k" "k \<le> sf + j + 1" for k
    proof -
      from that False have "k = sf + i" by simp
      then show ?thesis using "1.prems" by simp
    qed
    then show ?thesis by (simp add: nil)
  next
    case True
    let ?h1 = "AList.update (sf + i + 1) [] (hyp_emplace h (sf + i) [])"
    have step: "decodeFrame d em N sf i h = Inr ?h1"
      using decodeFrame_empty [OF "1.prems"] .
    have cur: "map_of ?h1 (sf + i) = Some []"
      using "1.prems" by (simp add: update_conv' map_of_hyp_emplace)
    have nxt: "map_of ?h1 (sf + (i + 1)) = Some []"
      by (simp add: update_conv' add.assoc)
    from "1.IH" [OF True nxt] obtain h' where
      run: "decodeFrames d em N sf [i + 1..j] ?h1 = Inr h'"
      and emp: "\<forall>k. sf + (i + 1) \<le> k \<and> k \<le> sf + j + 1 \<and> i + 1 \<le> j + 1 \<longrightarrow> map_of h' k = Some []"
      by blast
    have keep: "map_of h' (sf + i) = Some []"
      by (rule decodeFrames_keeps [OF run cur]) auto
    have all: "decodeFrames d em N sf [i..j] h = Inr h'"
      using True step run by (simp add: upto_rec1 [of i j])
    have "map_of h' k = Some []" if "sf + i \<le> k" "k \<le> sf + j + 1" for k
    proof (cases "k = sf + i")
      case True
      then show ?thesis using keep by simp
    next
      case False
      with that have "sf + (i + 1) \<le> k" by simp
      with emp that True show ?thesis by simp
    qed
    with all show ?thesis by blast
  qed
qed

lemma getBestHypothesis_empty:
  "map_of (hyp d) (nDecodedFrames d - nPrunedFrames d) = Some [] \<Longrightarrow>
   getBestHypothesis d lookBack = Inr emptyResult"
  by (simp add: getBestHypothesis_def findBestAncestor_Nil getHypothesis_def)

text \<open>
  C9: an empty candidate buffer is stored as an empty frame; from an empty
  current frame every \<open>decodeStep\<close> returns, leaves only empty frames from
  the current one on, and best-hypothesis queries give the empty result.
\<close>

theorem empty_frame_stays_empty:
  "(candidates buf = [] \<longrightarrow> candidatesStore opts m buf rs = Inr []) \<and>
   (map_of (hyp d) (nDecodedFrames d - nPrunedFrames d) = Some [] \<longrightarrow>
      (\<forall>lookBack. getBestHypothesis d lookBack = Inr emptyResult) \<and>
      (0 \<le> T \<longrightarrow>
         (\<exists>d'. decodeStep d emissions T N = Inr d' \<and>
               nDecodedFrames d' - nPrunedFrames d' = nDecodedFrames d - nPrunedFrames d + T \<and>
               (\<forall>k. nDecodedFrames d - nPrunedFrames d \<le> k \<and>
                     k \<le> nDecodedFrames d - nPrunedFrames d + T \<longrightarrow>
                     map_of (hyp d') k = Some []) \<and>
               (\<forall>lookBack. getBestHypothesis d' lookBack = Inr emptyResult))))"
proof -
  let ?sf = "nDecodedFrames d - nPrunedFrames d"
  have step: "\<exists>d'. decodeStep d emissions T N = Inr d' \<and>
               nDecodedFrames d' - nPrunedFrames d' = ?sf + T \<and>
               (\<forall>k. ?sf \<le> k \<and> k \<le> ?sf + T \<longrightarrow> map_of (hyp d') k = Some []) \<and>
               (\<forall>lookBack. getBestHypothesis d' lookBack = Inr emptyResult)"
    if cur: "map_of (hyp d) ?sf = Some []" and T: "0 \<le> T"
  proof -
    let ?h0 = "fold (\<lambda>i h. hyp_emplace h i []) [int (length (hyp d))..?sf + T + 1] (hyp d)"
    have "map_of ?h0 (?sf + 0) = Some []" using fold_emplace_keeps [OF cur] by simp
    from decodeFrames_empty [OF this, of d emissions N "T - 1"] obtain h' where
      run: "decodeFrames d emissions N ?sf [0..T - 1] ?h0 = Inr h'"
      and emp: "\<forall>k. ?sf + 0 \<le> k \<and> k \<le> ?sf + (T - 1) + 1 \<and> 0 \<le> T - 1 + 1 \<longrightarrow>
                   map_of h' k = Some []" by blast
    let ?d' = "d\<lparr>hyp := h', nDecodedFrames := nDecodedFrames d + T\<rparr>"
    have res: "decodeStep d emissions T N = Inr ?d'"
      unfolding decodeStep_def Let_def using run by simp
    have frames: "\<forall>k. ?sf \<le> k \<and> k \<le> ?sf + T \<longrightarrow> map_of (hyp ?d') k = Some []"
      using emp T by simp
    have cnt: "nDecodedFrames ?d' - nPrunedFrames ?d' = ?sf + T" by simp
    have "map_of (hyp ?d') (nDecodedFrames ?d' - nPrunedFrames ?d') = Some []"
      unfolding cnt using frames T by simp
    then have "\<forall>lookBack. getBestHypothesis ?d' lookBack = Inr emptyResult"
      using getBestHypothesis_empty by blast
    with res frames cnt show ?thesis by blast
  qed
  show ?thesis
    using step candidatesStore_empty getBestHypothesis_empty by blast
qed

theorem empty_frame_stays_empty_witness:
  "candidates (candidatesReset :: nat Candidates) = [] \<and>
   candidatesStore demoOptions demoLM candidatesReset False = Inr [] \<and>
   map_of (hyp demoStalled) (nDecodedFrames demoStalled - nPrunedFrames demoStalled) = Some [] \<and>
   getBestHypothesis demoStalled 0 = Inr emptyResult \<and>
   (0::int) \<le> 2 \<and>
   (\<exists>d'. decodeStep demoStalled demoEmissions 2 3 = Inr d' \<and>
      map_of (hyp d') 1 = Some [] \<and> map_of (hyp d') 2 = Some [] \<and> map_of (hyp d') 3 = Some [] \<and>
      getBestHypothesis d' 0 = Inr emptyResult)"
proof -
  have b: "candidates (candidatesReset :: nat Candidates) = []"
    by (simp add: candidatesReset_def)
  have c: "nDecodedFrames demoStalled - nPrunedFrames demoStalled = 1"
    by (simp add: demoStalled_def demoDecoder_def)
  have f: "map_of (hyp demoStalled) (nDecodedFrames demoStalled - nPrunedFrames demoStalled)
             = Some []"
    by (simp add: demoStalled_def demoDecoder_def)
  note inst = empty_frame_stays_empty
    [of "candidatesReset :: nat Candidates" demoOptions demoLM False demoStalled 2 demoEmissions 3]
  from inst b have s: "candidatesStore demoOptions demoLM candidatesReset False = Inr []"
    by blast
  from inst f have g: "getBestHypothesis demoStalled 0 = Inr emptyResult" by blast
  from inst f obtain d' where
    r: "decodeStep demoStalled demoEmissions 2 3 = Inr d'"
    and e: "\<forall>k. nDecodedFrames demoStalled - nPrunedFrames demoStalled \<le> k \<and>
               k \<le> nDecodedFrames demoStalled - nPrunedFrames demoStalled + 2 \<longrightarrow>
               map_of (hyp d') k = Some []"
    and q: "\<forall>lookBack. getBestHypothesis d' lookBack = Inr emptyResult"
    by auto
  from e have "map_of (hyp d') 1 = Some []" "map_of (hyp d') 2 = Some []"
    "map_of (hyp d') 3 = Some []"
    unfolding c by simp_all
  with b s f g r q show ?thesis by auto
qed

section \<open>Prune without a best ancestor\<close>

text \<open>
  C10: when the frame-count guard passes and \<open>findBestAncestor\<close> over the
  current frame returns null, as it does on an empty frame, \<open>prune\<close> returns
  with the decoder state unchanged; \<open>prune\<close> changes the state only when an
  ancestor was found.
\<close>

theorem prune_without_ancestor:
  assumes "\<not> nDecodedFrames d - nPrunedFrames d - lookBack < 1"
    and "map_of (hyp d) (nDecodedFrames d - nPrunedFrames d) = Some fr"
  shows "(findBestAncestor (hyp d) fr lookBack = None \<longrightarrow> prune d lookBack = Inr d) \<and>
         (fr = [] \<longrightarrow> findBestAncestor (hyp d) fr lookBack = None) \<and>
         (\<forall>d'. prune d lookBack = Inr d' \<longrightarrow> d' \<noteq> d \<longrightarrow>
            findBestAncestor (hyp d) fr lookBack \<noteq> None)"
  using assms by (auto simp: prune_def findBestAncestor_Nil split: option.splits)

theorem prune_without_ancestor_witness:
  "\<not> nDecodedFrames demoStalled - nPrunedFrames demoStalled - 0 < 1 \<and>
   map_of (hyp demoStalled) (nDecodedFrames demoStalled - nPrunedFrames demoStalled) = Some [] \<and>
   findBestAncestor (hyp demoStalled) [] 0 = None \<and>
   prune demoStalled 0 = Inr demoStalled \<and>
   \<not> nDecodedFrames demoAfterA - nPrunedFrames demoAfterA - 0 < 1 \<and>
   map_of (hyp demoAfterA) (nDecodedFrames demoAfterA - nPrunedFrames demoAfterA)
     = Some [demoWordState] \<and>
   (\<exists>d'. prune demoAfterA 0 = Inr d' \<and> d' \<noteq> demoAfterA) \<and>
   findBestAncestor (hyp demoAfterA) [demoWordState] 0 \<noteq> None"
proof -
  have g1: "\<not> nDecodedFrames demoStalled - nPrunedFrames demoStalled - 0 < 1"
    by (simp add: demoStalled_def demoDecoder_def)
  have f1: "map_of (hyp demoStalled) (nDecodedFrames demoStalled - nPrunedFrames demoStalled)
              = Some []"
    by (simp add: demoStalled_def demoDecoder_def)
  have g2: "\<not> nDecodedFrames demoAfterA - nPrunedFrames demoAfterA - 0 < 1"
    by (simp add: demoAfterA_def demoDecoder_def)
  have f2: "map_of (hyp demoAfterA) (nDecodedFrames demoAfterA - nPrunedFrames demoAfterA)
              = Some [demoWordState]"
    by (simp add: demoAfterA_def demoDecoder_def)
  have ne: "demoAfterA\<lparr>hyp := [(0, [demoWordState\<lparr>score := 0, parent := None\<rparr>]), (1, [])],
                       nPrunedFrames := 1\<rparr> \<noteq> demoAfterA"
  proof
    assume "demoAfterA\<lparr>hyp := [(0, [demoWordState\<lparr>score := 0, parent := None\<rparr>]), (1, [])],
                       nPrunedFrames := 1\<rparr> = demoAfterA"
    then have "nPrunedFrames (demoAfterA\<lparr>hyp := [(0, [demoWordState\<lparr>score := 0, parent := None\<rparr>]), (1, [])],
                       nPrunedFrames := 1\<rparr>) = nPrunedFrames demoAfterA" by simp
    then show False by (simp add: demoAfterA_def demoDecoder_def)
  qed
  have ch: "\<exists>d'. prune demoAfterA 0 = Inr d' \<and> d' \<noteq> demoAfterA"
    using prune_demoAfterA ne by simp
  from prune_without_ancestor [OF g1 f1] prune_without_ancestor [OF g2 f2] g1 f1 g2 f2 ch
  show ?thesis by auto
qed

end
